theory Spec2Isabelle
  imports Main "HOL-Library.AList"
begin

section \<open>Python values, objects and the object store\<close>

text \<open>
  The source file \<^verbatim>\<open>helm_factory/kubernetes_objects/deployment.py\<close> declares six
  classes whose only methods are their \<^verbatim>\<open>__init__\<close>. A Python value is modelled by
  \<open>pyval\<close>: \<open>PNone\<close> is \<^verbatim>\<open>None\<close>, \<open>PRef a\<close> is a reference to the object stored at
  address \<open>a\<close>, \<open>PTime\<close> is a \<^verbatim>\<open>datetime.time\<close> (hour, minute, second) and \<open>POpaque\<close>
  stands for every other Python value (a function, an instance of a foreign type).
\<close>

datatype pyval =
    PNone
  | PBool bool
  | PInt int
  | PStr string
  | PTime nat nat nat
  | PList "pyval list"
  | PRef nat
  | POpaque string

datatype error = TypeError | AttributeError | UnsupportedTypeError | CyclicGraphError

text \<open>
  An instance is its class name and its \<^verbatim>\<open>__dict__\<close>: the attributes in the order of
  their first assignment. The store is the list of all instances; an address is an index.
\<close>

record pyobj =
  obj_class :: string
  obj_dict :: "(string \<times> pyval) list"

type_synonym heap = "pyobj list"

definition alloc :: "heap \<Rightarrow> string \<Rightarrow> heap \<times> nat" where
  "alloc h c = (h @ [\<lparr>obj_class = c, obj_dict = []\<rparr>], length h)"

text \<open>
  \<^verbatim>\<open>self.k = v\<close>: an attribute that exists keeps its place in \<^verbatim>\<open>__dict__\<close> and gets the
  new value, a new attribute is added at the end. Only the object at \<open>self\<close> changes.
\<close>

definition setattr :: "heap \<Rightarrow> nat \<Rightarrow> string \<Rightarrow> pyval \<Rightarrow> heap" where
  "setattr h self k v =
     (if self < length h
      then h[self := (h ! self)\<lparr>obj_dict := AList.update k v (obj_dict (h ! self))\<rparr>]
      else h)"

definition getattr :: "heap \<Rightarrow> nat \<Rightarrow> string \<Rightarrow> error + pyval" where
  "getattr h a k =
     (if a < length h
      then (case map_of (obj_dict (h ! a)) k of
              Some v \<Rightarrow> Inr v
            | None \<Rightarrow> Inl AttributeError)
      else Inl AttributeError)"

section \<open>Calling a constructor: binding arguments to parameters\<close>

text \<open>
  A parameter list is the declared names in order, each with its default if it has one.
  A call supplies positional arguments and keyword arguments. Python raises
  \<^verbatim>\<open>TypeError\<close> when there are more positional arguments than parameters, when a keyword
  is repeated, names no parameter or names one already filled by position, and when a
  parameter without default is left unfilled.
\<close>

type_synonym params = "(string \<times> pyval option) list"

fun bind_param :: "pyval list \<Rightarrow> (string \<times> pyval) list \<Rightarrow> nat \<Rightarrow> string \<times> pyval option \<Rightarrow> error + pyval" where
  "bind_param pos kw i (name, dflt) =
     (if i < length pos then Inr (pos ! i)
      else (case map_of kw name of
              Some v \<Rightarrow> Inr v
            | None \<Rightarrow> (case dflt of Some d \<Rightarrow> Inr d | None \<Rightarrow> Inl TypeError)))"

fun bind_from :: "pyval list \<Rightarrow> (string \<times> pyval) list \<Rightarrow> nat \<Rightarrow> params \<Rightarrow> error + (string \<times> pyval) list" where
  "bind_from pos kw i [] = Inr []"
| "bind_from pos kw i (p # ps) =
     (case bind_param pos kw i p of
        Inl e \<Rightarrow> Inl e
      | Inr v \<Rightarrow> (case bind_from pos kw (Suc i) ps of
                    Inl e \<Rightarrow> Inl e
                  | Inr b \<Rightarrow> Inr ((fst p, v) # b)))"

definition bind_args :: "params \<Rightarrow> pyval list \<Rightarrow> (string \<times> pyval) list \<Rightarrow> error + (string \<times> pyval) list" where
  "bind_args ps pos kw =
     (if length ps < length pos then Inl TypeError
      else if \<not> distinct (map fst kw) then Inl TypeError
      else if \<not> list_all (\<lambda>k. k \<in> set (map fst (drop (length pos) ps))) (map fst kw)
        then Inl TypeError
      else bind_from pos kw 0 ps)"

text \<open>The value a bound parameter holds inside the body of \<^verbatim>\<open>__init__\<close>.\<close>

definition arg :: "(string \<times> pyval) list \<Rightarrow> string \<Rightarrow> pyval" where
  "arg b name = (case map_of b name of Some v \<Rightarrow> v | None \<Rightarrow> PNone)"

section \<open>The classes of deployment.py\<close>

subsection \<open>RollingUpdateDeployment\<close>

definition RollingUpdateDeployment_params :: params where
  "RollingUpdateDeployment_params =
     [(''max_surge'', Some PNone), (''max_unavailable'', Some PNone)]"

definition RollingUpdateDeployment_init :: "heap \<Rightarrow> nat \<Rightarrow> pyval \<Rightarrow> pyval \<Rightarrow> heap" where
  "RollingUpdateDeployment_init h self max_surge max_unavailable =
     setattr (setattr h self ''maxSurge'' max_surge) self ''maxUnavailable'' max_unavailable"

definition RollingUpdateDeployment ::
  "heap \<Rightarrow> pyval list \<Rightarrow> (string \<times> pyval) list \<Rightarrow> error + heap \<times> nat" where
  "RollingUpdateDeployment h pos kw =
     (case bind_args RollingUpdateDeployment_params pos kw of
        Inl e \<Rightarrow> Inl e
      | Inr b \<Rightarrow>
          (case alloc h ''RollingUpdateDeployment'' of
             (h1, self) \<Rightarrow>
               Inr (RollingUpdateDeployment_init h1 self
                      (arg b ''max_surge'') (arg b ''max_unavailable''), self)))"

subsection \<open>DeploymentStrategy\<close>

definition DeploymentStrategy_params :: params where
  "DeploymentStrategy_params = [(''rolling_update'', Some PNone), (''type'', Some PNone)]"

definition DeploymentStrategy_init :: "heap \<Rightarrow> nat \<Rightarrow> pyval \<Rightarrow> pyval \<Rightarrow> heap" where
  "DeploymentStrategy_init h self rolling_update type =
     setattr (setattr h self ''rollingUpdate'' rolling_update) self ''type'' type"

definition DeploymentStrategy ::
  "heap \<Rightarrow> pyval list \<Rightarrow> (string \<times> pyval) list \<Rightarrow> error + heap \<times> nat" where
  "DeploymentStrategy h pos kw =
     (case bind_args DeploymentStrategy_params pos kw of
        Inl e \<Rightarrow> Inl e
      | Inr b \<Rightarrow>
          (case alloc h ''DeploymentStrategy'' of
             (h1, self) \<Rightarrow>
               Inr (DeploymentStrategy_init h1 self
                      (arg b ''rolling_update'') (arg b ''type''), self)))"

subsection \<open>DeploymentSpec\<close>

definition DeploymentSpec_params :: params where
  "DeploymentSpec_params =
     [(''template'', None),
      (''min_ready_seconds'', Some PNone),
      (''paused'', Some PNone),
      (''progress_deadline_seconds'', Some PNone),
      (''replicas'', Some PNone),
      (''revision_history_limit'', Some PNone),
      (''selector'', Some PNone),
      (''strategy'', Some PNone)]"

definition DeploymentSpec_init ::
  "heap \<Rightarrow> nat \<Rightarrow> pyval \<Rightarrow> pyval \<Rightarrow> pyval \<Rightarrow> pyval \<Rightarrow> pyval \<Rightarrow> pyval \<Rightarrow> pyval \<Rightarrow> pyval \<Rightarrow> heap" where
  "DeploymentSpec_init h self template min_ready_seconds paused progress_deadline_seconds
       replicas revision_history_limit selector strategy =
     (let h1 = setattr h self ''template'' template;
          h2 = setattr h1 self ''minReadySeconds'' min_ready_seconds;
          h3 = setattr h2 self ''paused'' paused;
          h4 = setattr h3 self ''progressDeadlineSeconds'' progress_deadline_seconds;
          h5 = setattr h4 self ''replicas'' replicas;
          h6 = setattr h5 self ''revisionHistoryLimit'' revision_history_limit;
          h7 = setattr h6 self ''selector'' selector
      in setattr h7 self ''strategy'' strategy)"

definition DeploymentSpec ::
  "heap \<Rightarrow> pyval list \<Rightarrow> (string \<times> pyval) list \<Rightarrow> error + heap \<times> nat" where
  "DeploymentSpec h pos kw =
     (case bind_args DeploymentSpec_params pos kw of
        Inl e \<Rightarrow> Inl e
      | Inr b \<Rightarrow>
          (case alloc h ''DeploymentSpec'' of
             (h1, self) \<Rightarrow>
               Inr (DeploymentSpec_init h1 self
                      (arg b ''template'') (arg b ''min_ready_seconds'') (arg b ''paused'')
                      (arg b ''progress_deadline_seconds'') (arg b ''replicas'')
                      (arg b ''revision_history_limit'') (arg b ''selector'')
                      (arg b ''strategy''), self)))"

subsection \<open>DeploymentCondition\<close>

definition DeploymentCondition_params :: params where
  "DeploymentCondition_params =
     [(''last_transition_time'', None),
      (''last_update_time'', None),
      (''message'', None),
      (''reason'', None),
      (''type'', None)]"

definition DeploymentCondition_init ::
  "heap \<Rightarrow> nat \<Rightarrow> pyval \<Rightarrow> pyval \<Rightarrow> pyval \<Rightarrow> pyval \<Rightarrow> pyval \<Rightarrow> heap" where
  "DeploymentCondition_init h self last_transition_time last_update_time message reason type =
     (let h1 = setattr h self ''lastTransitionTime'' last_transition_time;
          h2 = setattr h1 self ''lastUpdateTime'' last_update_time;
          h3 = setattr h2 self ''message'' message;
          h4 = setattr h3 self ''reason'' reason
      in setattr h4 self ''type'' type)"

definition DeploymentCondition ::
  "heap \<Rightarrow> pyval list \<Rightarrow> (string \<times> pyval) list \<Rightarrow> error + heap \<times> nat" where
  "DeploymentCondition h pos kw =
     (case bind_args DeploymentCondition_params pos kw of
        Inl e \<Rightarrow> Inl e
      | Inr b \<Rightarrow>
          (case alloc h ''DeploymentCondition'' of
             (h1, self) \<Rightarrow>
               Inr (DeploymentCondition_init h1 self
                      (arg b ''last_transition_time'') (arg b ''last_update_time'')
                      (arg b ''message'') (arg b ''reason'') (arg b ''type''), self)))"

subsection \<open>Deployment and DeploymentList\<close>

text \<open>
  Both classes extend \<^verbatim>\<open>KubernetesBaseObject\<close> and start with
  \<^verbatim>\<open>super().__init__(api_version)\<close>. That base class is declared in another module
  (\<^verbatim>\<open>base_objects\<close>), so its initialiser is a parameter \<open>base\<close> here: for the class of
  the new instance and the value of \<^verbatim>\<open>api_version\<close> it gives the attribute assignments
  the base initialiser performs on \<^verbatim>\<open>self\<close>, in order.
\<close>

type_synonym base_init = "string \<Rightarrow> pyval \<Rightarrow> (string \<times> pyval) list"

definition super_init :: "base_init \<Rightarrow> heap \<Rightarrow> nat \<Rightarrow> pyval \<Rightarrow> heap" where
  "super_init base h self api_version =
     (if self < length h
      then fold (\<lambda>kv h'. setattr h' self (fst kv) (snd kv))
             (base (obj_class (h ! self)) api_version) h
      else h)"

definition Deployment_params :: params where
  "Deployment_params = [(''metadata'', None), (''spec'', None), (''api_version'', Some PNone)]"

definition Deployment_init ::
  "base_init \<Rightarrow> heap \<Rightarrow> nat \<Rightarrow> pyval \<Rightarrow> pyval \<Rightarrow> pyval \<Rightarrow> heap" where
  "Deployment_init base h self metadata spec api_version =
     (let h1 = super_init base h self api_version;
          h2 = setattr h1 self ''metadata'' metadata
      in setattr h2 self ''spec'' spec)"

definition Deployment ::
  "base_init \<Rightarrow> heap \<Rightarrow> pyval list \<Rightarrow> (string \<times> pyval) list \<Rightarrow> error + heap \<times> nat" where
  "Deployment base h pos kw =
     (case bind_args Deployment_params pos kw of
        Inl e \<Rightarrow> Inl e
      | Inr b \<Rightarrow>
          (case alloc h ''Deployment'' of
             (h1, self) \<Rightarrow>
               Inr (Deployment_init base h1 self
                      (arg b ''metadata'') (arg b ''spec'') (arg b ''api_version''), self)))"

definition DeploymentList_params :: params where
  "DeploymentList_params =
     [(''items'', None), (''metadata'', None), (''api_version'', Some PNone)]"

definition DeploymentList_init ::
  "base_init \<Rightarrow> heap \<Rightarrow> nat \<Rightarrow> pyval \<Rightarrow> pyval \<Rightarrow> pyval \<Rightarrow> heap" where
  "DeploymentList_init base h self items metadata api_version =
     (let h1 = super_init base h self api_version;
          h2 = setattr h1 self ''items'' items
      in setattr h2 self ''metadata'' metadata)"

definition DeploymentList ::
  "base_init \<Rightarrow> heap \<Rightarrow> pyval list \<Rightarrow> (string \<times> pyval) list \<Rightarrow> error + heap \<times> nat" where
  "DeploymentList base h pos kw =
     (case bind_args DeploymentList_params pos kw of
        Inl e \<Rightarrow> Inl e
      | Inr b \<Rightarrow>
          (case alloc h ''DeploymentList'' of
             (h1, self) \<Rightarrow>
               Inr (DeploymentList_init base h1 self
                      (arg b ''items'') (arg b ''metadata'') (arg b ''api_version''), self)))"

section \<open>Reading the result of a constructor call\<close>

text \<open>
  A constructor call returns the new store and the address of the new instance, or the
  error it raised. \<open>new_dict\<close> is the \<^verbatim>\<open>__dict__\<close> of the instance a call returned and
  \<open>attr_of\<close> reads one attribute of it.
\<close>

definition new_dict :: "error + heap \<times> nat \<Rightarrow> error + (string \<times> pyval) list" where
  "new_dict r =
     (case r of
        Inl e \<Rightarrow> Inl e
      | Inr (h, a) \<Rightarrow> if a < length h then Inr (obj_dict (h ! a)) else Inl AttributeError)"

definition attr_of :: "error + heap \<times> nat \<Rightarrow> string \<Rightarrow> error + pyval" where
  "attr_of r k = (case r of Inl e \<Rightarrow> Inl e | Inr (h, a) \<Rightarrow> getattr h a k)"

text \<open>The \<^verbatim>\<open>__dict__\<close> of a fresh instance after a sequence of attribute assignments.\<close>

definition assigned :: "(string \<times> pyval) list \<Rightarrow> (string \<times> pyval) list" where
  "assigned kvs = fold (\<lambda>kv d. AList.update (fst kv) (snd kv) d) kvs []"

section \<open>Predicates used to state the properties of the constructors\<close>

text \<open>
  \<open>required_missing ps pos kw\<close>: the call leaves a parameter without default unfilled,
  neither by position nor by keyword.
\<close>

definition required_missing :: "params \<Rightarrow> pyval list \<Rightarrow> (string \<times> pyval) list \<Rightarrow> bool" where
  "required_missing ps pos kw =
     list_ex (\<lambda>ip. snd (snd ip) = None \<and> length pos \<le> fst ip \<and> map_of kw (fst (snd ip)) = None)
       (enumerate 0 ps)"

text \<open>
  \<open>unset_optional ps pos kw n\<close>: \<open>n\<close> is a parameter whose default is \<^verbatim>\<open>None\<close>, and the
  call fills it neither by position nor by keyword.
\<close>

definition unset_optional :: "params \<Rightarrow> pyval list \<Rightarrow> (string \<times> pyval) list \<Rightarrow> string \<Rightarrow> bool" where
  "unset_optional ps pos kw n =
     ((n, Some PNone) \<in> set (drop (length pos) ps) \<and> map_of kw n = None)"

text \<open>
  \<open>frame self h h'\<close>: the stores \<open>h\<close> and \<open>h'\<close> hold the same objects at the same
  addresses, except possibly at \<open>self\<close>. \<open>only_adds h r\<close>: a call that returned \<open>r\<close> from
  store \<open>h\<close> either raised or returned the store \<open>h\<close> with one new object behind it.
\<close>

definition frame :: "nat \<Rightarrow> heap \<Rightarrow> heap \<Rightarrow> bool" where
  "frame self h h' =
     (length h' = length h \<and> take self h' = take self h
      \<and> drop (Suc self) h' = drop (Suc self) h)"

definition only_adds :: "heap \<Rightarrow> error + heap \<times> nat \<Rightarrow> bool" where
  "only_adds h r =
     (case r of
        Inl e \<Rightarrow> True
      | Inr (h', self) \<Rightarrow>
          self = length h \<and> length h' = Suc (length h) \<and> take (length h) h' = h)"

section \<open>The serializer\<close>

text \<open>
  The classes inherit from \<^verbatim>\<open>HelmYaml\<close> (module \<^verbatim>\<open>helm_factory.yaml.yaml_handling\<close>),
  which is not among the source files. The definitions of this section follow the
  specification of the serializer instead.
\<close>

subsection \<open>Scalar literals\<close>

definition digit_char :: "nat \<Rightarrow> char" where
  "digit_char d = (if d < 10 then ''0123456789'' ! d else CHR ''?'')"

fun show_nat :: "nat \<Rightarrow> string" where
  "show_nat n = (if n < 10 then [digit_char n] else show_nat (n div 10) @ [digit_char (n mod 10)])"

declare show_nat.simps [simp del]

definition show_int :: "int \<Rightarrow> string" where
  "show_int i = (if i < 0 then CHR ''-'' # show_nat (nat (- i)) else show_nat (nat i))"

definition two_digits :: "nat \<Rightarrow> string" where
  "two_digits n = (if n < 10 then CHR ''0'' # show_nat n else show_nat n)"

definition plain_char :: "char \<Rightarrow> bool" where
  "plain_char c =
     (c \<in> set ''abcdefghijklmnopqrstuvwxyzABCDEFGHIJKLMNOPQRSTUVWXYZ0123456789_-./%'')"

definition looks_numeric :: "string \<Rightarrow> bool" where
  "looks_numeric s = list_all (\<lambda>c. c \<in> set ''0123456789+-._eE'') s"

definition reserved_word :: "string \<Rightarrow> bool" where
  "reserved_word s =
     (s \<in> set [''null'', ''Null'', ''NULL'', ''true'', ''True'', ''TRUE'', ''false'', ''False'',
        ''FALSE'', ''yes'', ''Yes'', ''YES'', ''no'', ''No'', ''NO'', ''on'', ''On'', ''ON'',
        ''off'', ''Off'', ''OFF'', ''y'', ''Y'', ''n'', ''N''])"

text \<open>A string is written plain when it reads back as the same string.\<close>

definition plain_safe :: "string \<Rightarrow> bool" where
  "plain_safe s =
     (s \<noteq> [] \<and> list_all plain_char s \<and> \<not> looks_numeric s \<and> \<not> reserved_word s
      \<and> hd s \<noteq> CHR ''-'' \<and> hd s \<noteq> CHR ''%'' \<and> hd s \<noteq> CHR ''.'')"

fun escape :: "string \<Rightarrow> string" where
  "escape [] = []"
| "escape (c # cs) =
     (if c = CHR 0x22 then CHR 0x5C # CHR 0x22 # escape cs
      else if c = CHR 0x5C then CHR 0x5C # CHR 0x5C # escape cs
      else if c = CHR 0x0A then CHR 0x5C # CHR ''n'' # escape cs
      else c # escape cs)"

definition yaml_string :: "string \<Rightarrow> string" where
  "yaml_string s = (if plain_safe s then s else CHR 0x22 # escape s @ [CHR 0x22])"

text \<open>
  Modelled from the spec: step 1 of the algorithm of \<^verbatim>\<open>render\<close>, the method of the
  missing class \<^verbatim>\<open>HelmYaml\<close>. A scalar (string, number, boolean, timestamp, null) is
  written as its literal, ``preserving type'': a string that would read back as a number,
  a boolean or null is quoted. \<open>None\<close> is returned for a value that is no scalar.
\<close>

fun scalar_literal :: "pyval \<Rightarrow> string option" where
  "scalar_literal PNone = Some ''null''"
| "scalar_literal (PBool b) = Some (if b then ''true'' else ''false'')"
| "scalar_literal (PInt i) = Some (show_int i)"
| "scalar_literal (PStr s) = Some (yaml_string s)"
| "scalar_literal (PTime hh mm ss) =
     Some (two_digits hh @ '':'' @ two_digits mm @ '':'' @ two_digits ss)"
| "scalar_literal (PList vs) = None"
| "scalar_literal (PRef a) = None"
| "scalar_literal (POpaque x) = None"

subsection \<open>Rendering\<close>

text \<open>
  The result of rendering a value below a key: a scalar, an empty sequence and an object
  without present fields stand inline after the key; a sequence and an object are a block
  of lines, indented one level deeper than the key.
\<close>

datatype form = Inline string | Block "string list"

definition indent :: "nat \<Rightarrow> string" where
  "indent n = replicate (2 * n) CHR '' ''"

fun entry :: "nat \<Rightarrow> string \<Rightarrow> form \<Rightarrow> string list" where
  "entry n k (Inline s) = [indent n @ k @ '': '' @ s]"
| "entry n k (Block ls) = (indent n @ k @ '':'') # ls"

fun item :: "nat \<Rightarrow> form \<Rightarrow> string list" where
  "item n (Inline s) = [indent n @ ''- '' @ s]"
| "item n (Block ls) = (indent n @ ''-'') # ls"

text \<open>
  Modelled from the spec: the algorithm of \<^verbatim>\<open>render\<close> (section 4.1), the method of
  the missing class \<^verbatim>\<open>HelmYaml\<close>. \<open>render_value\<close>
  renders a value whose lines, if it is a block, stand at nesting level \<open>n\<close>;
  \<open>path\<close> holds the addresses of the objects the traversal is inside of.
  A scalar gives its literal (step 1). A sequence gives one list item per element (step
  2). An object gives its fields in the order of its \<^verbatim>\<open>__dict__\<close>, that is, in the
  order the constructor assigned them; a field holding the Absent marker \<^verbatim>\<open>None\<close> is
  skipped, any other field gives the line \<open>wireName: value\<close> for an inline value, and
  \<open>wireName:\<close> followed by the block one level deeper otherwise (step 3). A value without
  rendering rule raises \<^verbatim>\<open>UnsupportedTypeError\<close>, an object met again on the current
  path raises \<^verbatim>\<open>CyclicGraphError\<close>. An empty sequence is written \<open>[]\<close> and an object
  without present field \<open>{}\<close> (scenario C).
\<close>

function (sequential) render_value :: "heap \<Rightarrow> nat list \<Rightarrow> nat \<Rightarrow> pyval \<Rightarrow> error + form"
  and render_fields :: "heap \<Rightarrow> nat list \<Rightarrow> nat \<Rightarrow> (string \<times> pyval) list \<Rightarrow> error + string list"
  and render_items :: "heap \<Rightarrow> nat list \<Rightarrow> nat \<Rightarrow> pyval list \<Rightarrow> error + string list"
where
  "render_value h path n (PList vs) =
     (case render_items h path n vs of
        Inl e \<Rightarrow> Inl e
      | Inr ls \<Rightarrow> Inr (if ls = [] then Inline ''[]'' else Block ls))"
| "render_value h path n (PRef a) =
     (if a \<in> set path then Inl CyclicGraphError
      else if length h \<le> a then Inl UnsupportedTypeError
      else (case render_fields h (a # path) n (obj_dict (h ! a)) of
              Inl e \<Rightarrow> Inl e
            | Inr ls \<Rightarrow> Inr (if ls = [] then Inline ''{}'' else Block ls)))"
| "render_value h path n v =
     (case scalar_literal v of
        Some s \<Rightarrow> Inr (Inline s)
      | None \<Rightarrow> Inl UnsupportedTypeError)"
| "render_fields h path n [] = Inr []"
| "render_fields h path n (kv # kvs) =
     (if snd kv = PNone then render_fields h path n kvs
      else (case render_value h path (Suc n) (snd kv) of
              Inl e \<Rightarrow> Inl e
            | Inr f \<Rightarrow>
                (case render_fields h path n kvs of
                   Inl e \<Rightarrow> Inl e
                 | Inr rest \<Rightarrow> Inr (entry n (fst kv) f @ rest))))"
| "render_items h path n [] = Inr []"
| "render_items h path n (v # vs) =
     (case render_value h path (Suc n) v of
        Inl e \<Rightarrow> Inl e
      | Inr f \<Rightarrow>
          (case render_items h path n vs of
             Inl e \<Rightarrow> Inl e
           | Inr rest \<Rightarrow> Inr (item n f @ rest)))"
  by pat_completeness auto

termination
proof (relation "inv_image (less_than <*lex*> less_than)
    (\<lambda>x. case x of
       Inl (h, path, n, v) \<Rightarrow> (card ({..<length h} - set path), size v)
     | Inr (Inl (h, path, n, kvs)) \<Rightarrow>
         (card ({..<length h} - set path), size_list (\<lambda>kv. size (snd kv)) kvs)
     | Inr (Inr (h, path, n, vs)) \<Rightarrow> (card ({..<length h} - set path), size_list size vs))",
    goal_cases)
  case 1
  show ?case
    by (intro wf_inv_image wf_lex_prod wf_less_than)
next
  case (2 h path n vs)
  show ?case by simp
next
  case (3 h path n a)
  then have mem: "a \<in> {..<length h} - set path"
    by simp
  have eq: "{..<length h} - set (a # path) = {..<length h} - set path - {a}"
    by auto
  have "finite ({..<length h} - set path)"
    by simp
  then have "card ({..<length h} - set path - {a}) < card ({..<length h} - set path)"
    using mem by (rule card_Diff1_less)
  then have lt: "card ({..<length h} - set (a # path)) < card ({..<length h} - set path)"
    unfolding eq .
  show ?case
    unfolding in_inv_image in_lex_prod sum.case prod.case less_than_iff
    using lt by blast
next
  case (4 h path n kv kvs)
  show ?case by simp
next
  case (5 h path n kv kvs)
  show ?case by simp
next
  case (6 h path n kv kvs x)
  show ?case by simp
next
  case (7 h path n v vs)
  show ?case by simp
next
  case (8 h path n v vs x)
  show ?case by simp
qed

fun form_lines :: "form \<Rightarrow> string list" where
  "form_lines (Inline s) = [s]"
| "form_lines (Block ls) = ls"

fun join_lines :: "string list \<Rightarrow> string" where
  "join_lines [] = []"
| "join_lines [l] = l"
| "join_lines (l # ls) = l @ CHR 0x0A # join_lines ls"

text \<open>
  Modelled from the spec: \<^verbatim>\<open>render(object) -> text\<close>, the contract of the missing
  class \<^verbatim>\<open>HelmYaml\<close>. The text is the lines of the document joined by newlines, or
  one of the two errors and no text.
\<close>

definition render :: "heap \<Rightarrow> pyval \<Rightarrow> error + string" where
  "render h v =
     (case render_value h [] 0 v of
        Inl e \<Rightarrow> Inl e
      | Inr f \<Rightarrow> Inr (join_lines (form_lines f)))"

text \<open>Rendering the object a constructor call returned.\<close>

definition render_new :: "error + heap \<times> nat \<Rightarrow> error + string" where
  "render_new r = (case r of Inl e \<Rightarrow> Inl e | Inr (h, a) \<Rightarrow> render h (PRef a))"

subsection \<open>Reading the keys of a rendered document\<close>

definition ident_char :: "char \<Rightarrow> bool" where
  "ident_char c =
     (c \<in> set ''abcdefghijklmnopqrstuvwxyzABCDEFGHIJKLMNOPQRSTUVWXYZ0123456789_'')"

text \<open>An attribute name is a Python identifier.\<close>

definition py_identifier :: "string \<Rightarrow> bool" where
  "py_identifier k = (k \<noteq> [] \<and> list_all ident_char k \<and> hd k \<notin> set ''0123456789'')"

definition wf_obj :: "pyobj \<Rightarrow> bool" where
  "wf_obj ob = (list_all py_identifier (map fst (obj_dict ob)) \<and> distinct (map fst (obj_dict ob)))"

definition wf_heap :: "heap \<Rightarrow> bool" where
  "wf_heap h = list_all wf_obj h"

fun text_lines :: "string \<Rightarrow> string list" where
  "text_lines [] = [[]]"
| "text_lines (c # cs) =
     (if c = CHR 0x0A then [] # text_lines cs
      else (case text_lines cs of
              [] \<Rightarrow> [[c]]
            | l # ls \<Rightarrow> (c # l) # ls))"

text \<open>
  The key of a line at nesting level \<open>n\<close>: the line is the indentation of level \<open>n\<close>, an
  identifier and a colon. Deeper lines and list items have no key at level \<open>n\<close>.
\<close>

definition line_key :: "nat \<Rightarrow> string \<Rightarrow> string option" where
  "line_key n l =
     (if take (2 * n) l = indent n \<and> CHR '':'' \<in> set (drop (2 * n) l)
         \<and> py_identifier (takeWhile (\<lambda>c. c \<noteq> CHR '':'') (drop (2 * n) l))
      then Some (takeWhile (\<lambda>c. c \<noteq> CHR '':'') (drop (2 * n) l))
      else None)"

definition keys_at :: "nat \<Rightarrow> string list \<Rightarrow> string list" where
  "keys_at n ls = List.map_filter (line_key n) ls"

text \<open>The fields of an object that are not Absent, in the order of its \<^verbatim>\<open>__dict__\<close>.\<close>

definition present :: "(string \<times> pyval) list \<Rightarrow> (string \<times> pyval) list" where
  "present kvs = filter (\<lambda>kv. snd kv \<noteq> PNone) kvs"

section \<open>The operations on constructed objects\<close>

text \<open>
  The six classes of the file, and the methods the body of each class declares: every
  body consists of a docstring and \<^verbatim>\<open>def __init__\<close>, nothing else.
\<close>

datatype class_name =
    RollingUpdateDeployment_class
  | DeploymentStrategy_class
  | DeploymentSpec_class
  | DeploymentCondition_class
  | Deployment_class
  | DeploymentList_class

fun declared_methods :: "class_name \<Rightarrow> string list" where
  "declared_methods RollingUpdateDeployment_class = [''__init__'']"
| "declared_methods DeploymentStrategy_class = [''__init__'']"
| "declared_methods DeploymentSpec_class = [''__init__'']"
| "declared_methods DeploymentCondition_class = [''__init__'']"
| "declared_methods Deployment_class = [''__init__'']"
| "declared_methods DeploymentList_class = [''__init__'']"

text \<open>Calling a class: the only way the declared methods are run.\<close>

fun construct ::
  "base_init \<Rightarrow> class_name \<Rightarrow> heap \<Rightarrow> pyval list \<Rightarrow> (string \<times> pyval) list \<Rightarrow> error + heap \<times> nat"
where
  "construct base RollingUpdateDeployment_class h pos kw = RollingUpdateDeployment h pos kw"
| "construct base DeploymentStrategy_class h pos kw = DeploymentStrategy h pos kw"
| "construct base DeploymentSpec_class h pos kw = DeploymentSpec h pos kw"
| "construct base DeploymentCondition_class h pos kw = DeploymentCondition h pos kw"
| "construct base Deployment_class h pos kw = Deployment base h pos kw"
| "construct base DeploymentList_class h pos kw = DeploymentList base h pos kw"

text \<open>
  The operations of the model: constructing an instance of one of the classes, and
  rendering a value. The serializer is inherited from \<^verbatim>\<open>HelmYaml\<close>, which is not among
  the source files; it is a parameter here, any function that reads the store and
  returns a text or an error (the specification's contract \<^verbatim>\<open>render(object) -> text\<close>,
  ``side effects: none''). An operation returns the store it leaves behind and its
  outcome; an operation that raises leaves the store as it was.
\<close>

type_synonym renderer = "heap \<Rightarrow> pyval \<Rightarrow> error + string"

datatype operation =
    Construct class_name "pyval list" "(string \<times> pyval) list"
  | Render pyval

datatype outcome = Raised error | Instance nat | Text string

fun perform :: "base_init \<Rightarrow> renderer \<Rightarrow> heap \<Rightarrow> operation \<Rightarrow> heap \<times> outcome" where
  "perform base rnd h (Construct c pos kw) =
     (case construct base c h pos kw of
        Inl e \<Rightarrow> (h, Raised e)
      | Inr (h', a) \<Rightarrow> (h', Instance a))"
| "perform base rnd h (Render v) =
     (h, (case rnd h v of Inl e \<Rightarrow> Raised e | Inr t \<Rightarrow> Text t))"

fun run :: "base_init \<Rightarrow> renderer \<Rightarrow> heap \<Rightarrow> operation list \<Rightarrow> heap" where
  "run base rnd h [] = h"
| "run base rnd h (x # xs) = run base rnd (fst (perform base rnd h x)) xs"

text \<open>
  \<open>keeps h h'\<close>: every object of the store \<open>h\<close> is in \<open>h'\<close> at its address, with the
  class and the fields it had.
\<close>

definition keeps :: "heap \<Rightarrow> heap \<Rightarrow> bool" where
  "keeps h h' = (length h \<le> length h' \<and> take (length h) h' = h)"

section \<open>Verified properties of the constructors\<close>

subsection \<open>Assignments on the instance under construction\<close>

lemma setattr_last:
  "setattr (h @ [ob]) (length h) k v = h @ [ob\<lparr>obj_dict := AList.update k v (obj_dict ob)\<rparr>]"
  by (simp add: setattr_def)

lemma fold_setattr_last:
  "fold (\<lambda>kv h'. setattr h' (length h) (fst kv) (snd kv)) kvs (h @ [ob]) =
     h @ [ob\<lparr>obj_dict := fold (\<lambda>kv d. AList.update (fst kv) (snd kv) d) kvs (obj_dict ob)\<rparr>]"
  by (induction kvs arbitrary: ob) (simp_all add: setattr_last)

lemma super_init_last:
  "super_init base (h @ [ob]) (length h) a =
     h @ [ob\<lparr>obj_dict := fold (\<lambda>kv d. AList.update (fst kv) (snd kv) d)
                              (base (obj_class ob) a) (obj_dict ob)\<rparr>]"
  by (simp add: super_init_def fold_setattr_last)

lemmas call_defs = bind_args_def arg_def alloc_def setattr_last super_init_last assigned_def

lemma attr_of_new:
  "attr_of (Inr (h @ [ob], length h)) k =
     (case map_of (obj_dict ob) k of Some v \<Rightarrow> Inr v | None \<Rightarrow> Inl AttributeError)"
  by (simp add: attr_of_def getattr_def)

lemma new_dict_new: "new_dict (Inr (h @ [ob], length h)) = Inr (obj_dict ob)"
  by (simp add: new_dict_def)

subsection \<open>What a call with every argument given by keyword returns\<close>

lemma RollingUpdateDeployment_kw:
  "RollingUpdateDeployment h [] [(''max_surge'', s), (''max_unavailable'', u)] =
     Inr (h @ [\<lparr>obj_class = ''RollingUpdateDeployment'',
               obj_dict = [(''maxSurge'', s), (''maxUnavailable'', u)]\<rparr>], length h)"
  by (simp add: RollingUpdateDeployment_def RollingUpdateDeployment_params_def
      RollingUpdateDeployment_init_def call_defs)


lemma DeploymentSpec_kw:
  "DeploymentSpec h [] [(''template'', t), (''min_ready_seconds'', m), (''paused'', p),
      (''progress_deadline_seconds'', d), (''replicas'', r), (''revision_history_limit'', l),
      (''selector'', s), (''strategy'', g)] =
     Inr (h @ [\<lparr>obj_class = ''DeploymentSpec'',
               obj_dict = [(''template'', t), (''minReadySeconds'', m), (''paused'', p),
                 (''progressDeadlineSeconds'', d), (''replicas'', r),
                 (''revisionHistoryLimit'', l), (''selector'', s), (''strategy'', g)]\<rparr>],
          length h)"
  by (simp add: DeploymentSpec_def DeploymentSpec_params_def DeploymentSpec_init_def call_defs)





subsection \<open>Arguments are stored as they are\<close>


text \<open>What the binding of a successful call holds for a parameter.\<close>

lemma bind_from_arg:
  assumes "bind_from pos kw j ps = Inr b" "distinct (map fst ps)" "i < length ps"
  shows "map_of b (fst (ps ! i)) =
      Some (if j + i < length pos then pos ! (j + i)
            else case map_of kw (fst (ps ! i)) of
                   Some v \<Rightarrow> v
                 | None \<Rightarrow> (case snd (ps ! i) of Some d \<Rightarrow> d | None \<Rightarrow> PNone))"
    and "map fst b = map fst ps"
  using assms
proof (induction ps arbitrary: j b i)
  case Nil
  {
    case 1 then show ?case by simp
  next
    case 2 then show ?case by simp
  }
next
  case (Cons p ps)
  {
    case 1
    from "1.prems"(1) obtain v b' where v: "bind_param pos kw j p = Inr v"
      and b': "bind_from pos kw (Suc j) ps = Inr b'" and b: "b = (fst p, v) # b'"
      by (auto split: sum.splits)
    show ?case
    proof (cases i)
      case 0
      with v b show ?thesis
        by (cases p) (auto split: if_splits option.splits)
    next
      case (Suc i')
      with "1.prems" have i': "i' < length ps" and d: "distinct (map fst ps)"
        and np: "fst p \<notin> fst ` set ps"
        by auto
      from i' have "fst (ps ! i') \<in> fst ` set ps"
        by simp
      with np have ne: "fst (ps ! i') \<noteq> fst p"
        by metis
      from Cons.IH(1) [OF b' d i'] ne b show ?thesis
        unfolding Suc by (simp cong: option.case_cong)
    qed
  next
    case 2
    from "2.prems"(1) obtain v b' where v: "bind_param pos kw j p = Inr v"
      and b': "bind_from pos kw (Suc j) ps = Inr b'" and b: "b = (fst p, v) # b'"
      by (auto split: sum.splits)
    from "2.prems" have d: "distinct (map fst ps)" by simp
    show ?case
    proof (cases ps)
      case Nil
      with b' b show ?thesis by simp
    next
      case (Cons q qs)
      then have "0 < length ps" by simp
      from Cons.IH(2) [OF b' d this] b show ?thesis by simp
    qed
  }
qed

lemma bind_args_arg:
  assumes "bind_args ps pos kw = Inr b" "distinct (map fst ps)" "i < length ps"
  shows "arg b (fst (ps ! i)) =
      (if i < length pos then pos ! i
       else case map_of kw (fst (ps ! i)) of
              Some v \<Rightarrow> v
            | None \<Rightarrow> (case snd (ps ! i) of Some d \<Rightarrow> d | None \<Rightarrow> PNone))"
proof -
  from assms(1) have "bind_from pos kw 0 ps = Inr b"
    by (auto simp: bind_args_def split: if_splits)
  from bind_from_arg(1) [OF this assms(2,3)] show ?thesis
    by (simp add: arg_def)
qed




subsection \<open>Required parameters and defaults\<close>

lemma bind_param_error: "bind_param pos kw i p = Inl e \<Longrightarrow> e = TypeError"
  by (cases p) (auto split: if_splits option.splits)

lemma bind_from_missing:
  "k < length ps \<Longrightarrow> snd (ps ! k) = None \<Longrightarrow> length pos \<le> j + k \<Longrightarrow>
   map_of kw (fst (ps ! k)) = None \<Longrightarrow> bind_from pos kw j ps = Inl TypeError"
proof (induction ps arbitrary: j k)
  case Nil
  then show ?case by simp
next
  case (Cons p ps)
  show ?case
  proof (cases k)
    case 0
    with Cons.prems show ?thesis by (cases p) simp
  next
    case (Suc k')
    with Cons.prems have "bind_from pos kw (Suc j) ps = Inl TypeError"
      by (intro Cons.IH [of k']) simp_all
    then show ?thesis
      by (auto split: sum.splits dest: bind_param_error)
  qed
qed

lemma bind_args_missing:
  assumes "required_missing ps pos kw"
  shows "bind_args ps pos kw = Inl TypeError"
proof -
  from assms obtain i p where ip: "(i, p) \<in> set (enumerate 0 ps)" "snd p = None"
      "length pos \<le> i" "map_of kw (fst p) = None"
    by (auto simp: required_missing_def list_ex_iff)
  then have "i < length ps" "ps ! i = p"
    by (auto simp: in_set_enumerate_eq)
  with ip have "bind_from pos kw 0 ps = Inl TypeError"
    by (intro bind_from_missing [of i]) simp_all
  then show ?thesis by (simp add: bind_args_def)
qed

lemma required_TypeError:
  "required_missing DeploymentSpec_params pos kw \<Longrightarrow>
     DeploymentSpec h pos kw = Inl TypeError"
  "required_missing DeploymentCondition_params pos kw \<Longrightarrow>
     DeploymentCondition h pos kw = Inl TypeError"
  "required_missing Deployment_params pos kw \<Longrightarrow>
     Deployment base h pos kw = Inl TypeError"
  "required_missing DeploymentList_params pos kw \<Longrightarrow>
     DeploymentList base h pos kw = Inl TypeError"
  by (simp_all add: bind_args_missing DeploymentSpec_def DeploymentCondition_def
      Deployment_def DeploymentList_def)

lemma required_names:
  "map fst (filter (\<lambda>p. snd p = None) RollingUpdateDeployment_params) = []"
  "map fst (filter (\<lambda>p. snd p = None) DeploymentStrategy_params) = []"
  "map fst (filter (\<lambda>p. snd p = None) DeploymentSpec_params) = [''template'']"
  "map fst (filter (\<lambda>p. snd p = None) DeploymentCondition_params) =
     [''last_transition_time'', ''last_update_time'', ''message'', ''reason'', ''type'']"
  "map fst (filter (\<lambda>p. snd p = None) Deployment_params) = [''metadata'', ''spec'']"
  "map fst (filter (\<lambda>p. snd p = None) DeploymentList_params) = [''items'', ''metadata'']"
  by (simp_all add: RollingUpdateDeployment_params_def DeploymentStrategy_params_def
      DeploymentSpec_params_def DeploymentCondition_params_def Deployment_params_def
      DeploymentList_params_def)

lemma optional_defaults:
  "map snd (filter (\<lambda>p. snd p \<noteq> None) RollingUpdateDeployment_params) =
     replicate 2 (Some PNone)"
  "map snd (filter (\<lambda>p. snd p \<noteq> None) DeploymentStrategy_params) = replicate 2 (Some PNone)"
  "map snd (filter (\<lambda>p. snd p \<noteq> None) DeploymentSpec_params) = replicate 7 (Some PNone)"
  "map snd (filter (\<lambda>p. snd p \<noteq> None) DeploymentCondition_params) = []"
  "map snd (filter (\<lambda>p. snd p \<noteq> None) Deployment_params) = replicate 1 (Some PNone)"
  "map snd (filter (\<lambda>p. snd p \<noteq> None) DeploymentList_params) = replicate 1 (Some PNone)"
  by (simp_all add: RollingUpdateDeployment_params_def DeploymentStrategy_params_def
      DeploymentSpec_params_def DeploymentCondition_params_def Deployment_params_def
      DeploymentList_params_def numeral_eq_Suc)

lemma omitted_optionals:
  "new_dict (RollingUpdateDeployment h [] []) =
     Inr [(''maxSurge'', PNone), (''maxUnavailable'', PNone)]"
  "new_dict (DeploymentStrategy h [] []) = Inr [(''rollingUpdate'', PNone), (''type'', PNone)]"
  "new_dict (DeploymentSpec h [] [(''template'', t)]) =
     Inr [(''template'', t), (''minReadySeconds'', PNone), (''paused'', PNone),
       (''progressDeadlineSeconds'', PNone), (''replicas'', PNone),
       (''revisionHistoryLimit'', PNone), (''selector'', PNone), (''strategy'', PNone)]"
  "Deployment base h [] [(''metadata'', m), (''spec'', s)] =
     Deployment base h [] [(''metadata'', m), (''spec'', s), (''api_version'', PNone)]"
  "DeploymentList base h [] [(''items'', i), (''metadata'', m)] =
     DeploymentList base h [] [(''items'', i), (''metadata'', m), (''api_version'', PNone)]"
      apply (simp add: RollingUpdateDeployment_def RollingUpdateDeployment_params_def
      RollingUpdateDeployment_init_def call_defs new_dict_new)
     apply (simp add: DeploymentStrategy_def DeploymentStrategy_params_def
      DeploymentStrategy_init_def call_defs new_dict_new)
    apply (simp add: DeploymentSpec_def DeploymentSpec_params_def
      DeploymentSpec_init_def call_defs new_dict_new)
   apply (simp add: Deployment_def Deployment_params_def bind_args_def arg_def)
  apply (simp add: DeploymentList_def DeploymentList_params_def bind_args_def arg_def)
  done

lemma replicas_zero_or_unset:
  "attr_of (DeploymentSpec h [] [(''template'', t), (''replicas'', PInt 0)]) ''replicas'' =
     Inr (PInt 0)"
  "attr_of (DeploymentSpec h [] [(''template'', t)]) ''replicas'' = Inr PNone"
   apply (simp add: DeploymentSpec_def DeploymentSpec_params_def
      DeploymentSpec_init_def call_defs attr_of_new)
  apply (simp add: DeploymentSpec_def DeploymentSpec_params_def
      DeploymentSpec_init_def call_defs attr_of_new)
  done

text \<open>
  Claim C3. A call that leaves a parameter without default unfilled raises
  \<^verbatim>\<open>TypeError\<close>; the parameters without default are \<open>template\<close> of DeploymentSpec,
  all five of DeploymentCondition, \<open>metadata\<close> and \<open>spec\<close> of Deployment, \<open>items\<close> and
  \<open>metadata\<close> of DeploymentList, and none of RollingUpdateDeployment and
  DeploymentStrategy. Every other parameter has the default \<^verbatim>\<open>None\<close>, which an omitted
  argument leaves in the object. \<^verbatim>\<open>None\<close> differs from every integer, boolean, string and
  list, so \<open>replicas = 0\<close> and \<open>replicas\<close> unset give different objects.
\<close>

theorem required_and_optional_parameters:
  "(required_missing DeploymentSpec_params pos kw \<longrightarrow>
      DeploymentSpec h pos kw = Inl TypeError)
   \<and> (required_missing DeploymentCondition_params pos kw \<longrightarrow>
      DeploymentCondition h pos kw = Inl TypeError)
   \<and> (required_missing Deployment_params pos kw \<longrightarrow>
      Deployment base h pos kw = Inl TypeError)
   \<and> (required_missing DeploymentList_params pos kw \<longrightarrow>
      DeploymentList base h pos kw = Inl TypeError)
   \<and> map fst (filter (\<lambda>p. snd p = None) RollingUpdateDeployment_params) = []
   \<and> map fst (filter (\<lambda>p. snd p = None) DeploymentStrategy_params) = []
   \<and> map fst (filter (\<lambda>p. snd p = None) DeploymentSpec_params) = [''template'']
   \<and> map fst (filter (\<lambda>p. snd p = None) DeploymentCondition_params) =
       [''last_transition_time'', ''last_update_time'', ''message'', ''reason'', ''type'']
   \<and> map fst (filter (\<lambda>p. snd p = None) Deployment_params) = [''metadata'', ''spec'']
   \<and> map fst (filter (\<lambda>p. snd p = None) DeploymentList_params) = [''items'', ''metadata'']
   \<and> map snd (filter (\<lambda>p. snd p \<noteq> None) RollingUpdateDeployment_params) =
       replicate 2 (Some PNone)
   \<and> map snd (filter (\<lambda>p. snd p \<noteq> None) DeploymentStrategy_params) =
       replicate 2 (Some PNone)
   \<and> map snd (filter (\<lambda>p. snd p \<noteq> None) DeploymentSpec_params) = replicate 7 (Some PNone)
   \<and> map snd (filter (\<lambda>p. snd p \<noteq> None) DeploymentCondition_params) = []
   \<and> map snd (filter (\<lambda>p. snd p \<noteq> None) Deployment_params) = replicate 1 (Some PNone)
   \<and> map snd (filter (\<lambda>p. snd p \<noteq> None) DeploymentList_params) = replicate 1 (Some PNone)
   \<and> new_dict (RollingUpdateDeployment h [] []) =
       Inr [(''maxSurge'', PNone), (''maxUnavailable'', PNone)]
   \<and> new_dict (DeploymentStrategy h [] []) = Inr [(''rollingUpdate'', PNone), (''type'', PNone)]
   \<and> new_dict (DeploymentSpec h [] [(''template'', t)]) =
       Inr [(''template'', t), (''minReadySeconds'', PNone), (''paused'', PNone),
         (''progressDeadlineSeconds'', PNone), (''replicas'', PNone),
         (''revisionHistoryLimit'', PNone), (''selector'', PNone), (''strategy'', PNone)]
   \<and> Deployment base h [] [(''metadata'', m), (''spec'', s)] =
       Deployment base h [] [(''metadata'', m), (''spec'', s), (''api_version'', PNone)]
   \<and> DeploymentList base h [] [(''items'', i), (''metadata'', m)] =
       DeploymentList base h [] [(''items'', i), (''metadata'', m), (''api_version'', PNone)]
   \<and> PNone \<noteq> PInt n \<and> PNone \<noteq> PBool b \<and> PNone \<noteq> PStr x \<and> PNone \<noteq> PList xs
   \<and> attr_of (DeploymentSpec h [] [(''template'', t), (''replicas'', PInt 0)]) ''replicas'' =
       Inr (PInt 0)
   \<and> attr_of (DeploymentSpec h [] [(''template'', t)]) ''replicas'' = Inr PNone"
  using required_TypeError required_names optional_defaults
    omitted_optionals replicas_zero_or_unset
  by (intro conjI impI) simp_all

theorem required_and_optional_parameters_witness:
  "required_missing DeploymentSpec_params [] [(''replicas'', PInt 0)]
   \<and> DeploymentSpec [] [] [(''replicas'', PInt 0)] = Inl TypeError
   \<and> required_missing DeploymentCondition_params [] [(''replicas'', PInt 0)]
   \<and> DeploymentCondition [] [] [(''replicas'', PInt 0)] = Inl TypeError
   \<and> required_missing Deployment_params [] [(''replicas'', PInt 0)]
   \<and> Deployment (\<lambda>c a. []) [] [] [(''replicas'', PInt 0)] = Inl TypeError
   \<and> required_missing DeploymentList_params [] [(''replicas'', PInt 0)]
   \<and> DeploymentList (\<lambda>c a. []) [] [] [(''replicas'', PInt 0)] = Inl TypeError"
proof -
  have 1: "required_missing DeploymentSpec_params [] [(''replicas'', PInt 0)]"
    by (simp add: required_missing_def DeploymentSpec_params_def)
  have 2: "required_missing DeploymentCondition_params [] [(''replicas'', PInt 0)]"
    by (simp add: required_missing_def DeploymentCondition_params_def)
  have 3: "required_missing Deployment_params [] [(''replicas'', PInt 0)]"
    by (simp add: required_missing_def Deployment_params_def)
  have 4: "required_missing DeploymentList_params [] [(''replicas'', PInt 0)]"
    by (simp add: required_missing_def DeploymentList_params_def)
  show ?thesis
    using 1 2 3 4
      required_and_optional_parameters [where pos = "[]" and kw = "[(''replicas'', PInt 0)]"
        and h = "[]" and base = "\<lambda>c a. []"]
    by blast
qed

subsection \<open>An explicit None is an omitted argument\<close>

lemma bind_param_explicit_default:
  assumes "p = (n, Some d) \<or> fst p \<noteq> n" "map_of (kw1 @ kw2) n = None"
  shows "bind_param pos (kw1 @ (n, d) # kw2) i p = bind_param pos (kw1 @ kw2) i p"
proof (cases p)
  case (Pair name dflt)
  show ?thesis
  proof (cases "name = n")
    case True
    with assms Pair have "dflt = Some d" by auto
    moreover from assms(2) have "map_of kw1 n = None" "map_of kw2 n = None"
      by (auto simp: map_add_def split: option.splits)
    ultimately show ?thesis using Pair True assms(2)
      by (simp add: map_add_def)
  next
    case False
    then have "map_of (kw1 @ (n, d) # kw2) name = map_of (kw1 @ kw2) name"
      by (simp add: map_add_def split: option.splits)
    with Pair show ?thesis by simp
  qed
qed

lemma bind_from_explicit_default:
  assumes "\<forall>p \<in> set ps. p = (n, Some d) \<or> fst p \<noteq> n" "map_of (kw1 @ kw2) n = None"
  shows "bind_from pos (kw1 @ (n, d) # kw2) i ps = bind_from pos (kw1 @ kw2) i ps"
  using assms(1)
proof (induction ps arbitrary: i)
  case Nil
  then show ?case by simp
next
  case (Cons p ps)
  then have "bind_param pos (kw1 @ (n, d) # kw2) i p = bind_param pos (kw1 @ kw2) i p"
    using assms(2) by (intro bind_param_explicit_default) simp_all
  moreover have "bind_from pos (kw1 @ (n, d) # kw2) (Suc i) ps =
      bind_from pos (kw1 @ kw2) (Suc i) ps"
    using Cons by simp
  ultimately show ?case by (simp split: sum.splits)
qed

lemma bind_args_explicit_default:
  assumes "distinct (map fst ps)" "(n, Some d) \<in> set (drop (length pos) ps)"
    "map_of (kw1 @ kw2) n = None"
  shows "bind_args ps pos (kw1 @ (n, d) # kw2) = bind_args ps pos (kw1 @ kw2)"
proof -
  from assms(2) have mem: "(n, Some d) \<in> set ps"
    by (rule in_set_dropD)
  have "\<forall>p \<in> set ps. p = (n, Some d) \<or> fst p \<noteq> n"
  proof
    fix p assume "p \<in> set ps"
    with mem assms(1) show "p = (n, Some d) \<or> fst p \<noteq> n"
      by (metis eq_key_imp_eq_value prod.collapse)
  qed
  then have bf: "bind_from pos (kw1 @ (n, d) # kw2) 0 ps = bind_from pos (kw1 @ kw2) 0 ps"
    using assms(3) by (rule bind_from_explicit_default)
  from assms(3) have notin: "n \<notin> fst ` set kw1" "n \<notin> fst ` set kw2"
    by (auto simp: map_of_eq_None_iff map_add_def split: option.splits)
  then have di: "distinct (map fst (kw1 @ (n, d) # kw2)) = distinct (map fst (kw1 @ kw2))"
    by auto
  from assms(2) have "n \<in> set (map fst (drop (length pos) ps))"
    by force
  then have la:
    "list_all (\<lambda>k. k \<in> set (map fst (drop (length pos) ps))) (map fst (kw1 @ (n, d) # kw2))
      = list_all (\<lambda>k. k \<in> set (map fst (drop (length pos) ps))) (map fst (kw1 @ kw2))"
    by simp
  show ?thesis
    unfolding bind_args_def bf di la ..
qed

lemma distinct_params:
  "distinct (map fst RollingUpdateDeployment_params)"
  "distinct (map fst DeploymentStrategy_params)"
  "distinct (map fst DeploymentSpec_params)"
  "distinct (map fst DeploymentCondition_params)"
  "distinct (map fst Deployment_params)"
  "distinct (map fst DeploymentList_params)"
  by (simp_all add: RollingUpdateDeployment_params_def DeploymentStrategy_params_def
      DeploymentSpec_params_def DeploymentCondition_params_def Deployment_params_def
      DeploymentList_params_def)

lemma explicit_None_calls:
  "unset_optional RollingUpdateDeployment_params pos (kw1 @ kw2) n \<Longrightarrow>
     RollingUpdateDeployment h pos (kw1 @ (n, PNone) # kw2) =
     RollingUpdateDeployment h pos (kw1 @ kw2)"
  "unset_optional DeploymentStrategy_params pos (kw1 @ kw2) n \<Longrightarrow>
     DeploymentStrategy h pos (kw1 @ (n, PNone) # kw2) = DeploymentStrategy h pos (kw1 @ kw2)"
  "unset_optional DeploymentSpec_params pos (kw1 @ kw2) n \<Longrightarrow>
     DeploymentSpec h pos (kw1 @ (n, PNone) # kw2) = DeploymentSpec h pos (kw1 @ kw2)"
  "unset_optional Deployment_params pos (kw1 @ kw2) n \<Longrightarrow>
     Deployment base h pos (kw1 @ (n, PNone) # kw2) = Deployment base h pos (kw1 @ kw2)"
  "unset_optional DeploymentList_params pos (kw1 @ kw2) n \<Longrightarrow>
     DeploymentList base h pos (kw1 @ (n, PNone) # kw2) = DeploymentList base h pos (kw1 @ kw2)"
  by (simp_all add: unset_optional_def RollingUpdateDeployment_def DeploymentStrategy_def
      DeploymentSpec_def Deployment_def DeploymentList_def
      bind_args_explicit_default distinct_params)

lemma positional_None_calls:
  "RollingUpdateDeployment h [s, PNone] [] = RollingUpdateDeployment h [s] []"
  "RollingUpdateDeployment h [PNone] [] = RollingUpdateDeployment h [] []"
  "DeploymentStrategy h [r, PNone] [] = DeploymentStrategy h [r] []"
  "DeploymentSpec h [t, PNone] [] = DeploymentSpec h [t] []"
  "Deployment base h [m, c, PNone] [] = Deployment base h [m, c] []"
  "DeploymentList base h [i, m, PNone] [] = DeploymentList base h [i, m] []"
  by (simp_all add: RollingUpdateDeployment_def RollingUpdateDeployment_params_def
      DeploymentStrategy_def DeploymentStrategy_params_def
      DeploymentSpec_def DeploymentSpec_params_def
      Deployment_def Deployment_params_def DeploymentList_def DeploymentList_params_def
      bind_args_def arg_def)

text \<open>
  Claim C10. The default of every optional parameter is the ordinary value \<^verbatim>\<open>None\<close>, so
  a call that passes \<^verbatim>\<open>None\<close> by keyword for an optional parameter returns the same
  object (and the same store) as the call that omits this keyword, whatever the other
  arguments are and wherever the keyword stands, and so does a call that passes
  \<^verbatim>\<open>None\<close> by position for the next optional parameter: in particular
  \<open>RollingUpdateDeployment(max_surge=s, max_unavailable=None)\<close> equals
  \<open>RollingUpdateDeployment(max_surge=s)\<close>. This holds for RollingUpdateDeployment,
  DeploymentStrategy, DeploymentSpec, Deployment and DeploymentList.
\<close>

theorem explicit_None_is_unset:
  "(unset_optional RollingUpdateDeployment_params pos1 (ka1 @ kb1) n1 \<longrightarrow>
      RollingUpdateDeployment h pos1 (ka1 @ (n1, PNone) # kb1) =
      RollingUpdateDeployment h pos1 (ka1 @ kb1))
   \<and> (unset_optional DeploymentStrategy_params pos2 (ka2 @ kb2) n2 \<longrightarrow>
      DeploymentStrategy h pos2 (ka2 @ (n2, PNone) # kb2) =
      DeploymentStrategy h pos2 (ka2 @ kb2))
   \<and> (unset_optional DeploymentSpec_params pos3 (ka3 @ kb3) n3 \<longrightarrow>
      DeploymentSpec h pos3 (ka3 @ (n3, PNone) # kb3) = DeploymentSpec h pos3 (ka3 @ kb3))
   \<and> (unset_optional Deployment_params pos4 (ka4 @ kb4) n4 \<longrightarrow>
      Deployment base h pos4 (ka4 @ (n4, PNone) # kb4) = Deployment base h pos4 (ka4 @ kb4))
   \<and> (unset_optional DeploymentList_params pos5 (ka5 @ kb5) n5 \<longrightarrow>
      DeploymentList base h pos5 (ka5 @ (n5, PNone) # kb5) =
      DeploymentList base h pos5 (ka5 @ kb5))
   \<and> RollingUpdateDeployment h [] [(''max_surge'', s), (''max_unavailable'', PNone)] =
       RollingUpdateDeployment h [] [(''max_surge'', s)]
   \<and> RollingUpdateDeployment h [s, PNone] [] = RollingUpdateDeployment h [s] []
   \<and> DeploymentStrategy h [r, PNone] [] = DeploymentStrategy h [r] []
   \<and> DeploymentSpec h [t, PNone] [] = DeploymentSpec h [t] []
   \<and> Deployment base h [m, c, PNone] [] = Deployment base h [m, c] []
   \<and> DeploymentList base h [i, m, PNone] [] = DeploymentList base h [i, m] []"
proof -
  have "unset_optional RollingUpdateDeployment_params [] ([(''max_surge'', s)] @ [])
      ''max_unavailable''"
    by (simp add: unset_optional_def RollingUpdateDeployment_params_def)
  then have "RollingUpdateDeployment h [] ([(''max_surge'', s)] @ (''max_unavailable'', PNone) # [])
      = RollingUpdateDeployment h [] ([(''max_surge'', s)] @ [])"
    by (rule explicit_None_calls)
  then show ?thesis
    using explicit_None_calls positional_None_calls by simp
qed

theorem explicit_None_is_unset_witness:
  "unset_optional RollingUpdateDeployment_params [] [(''max_surge'', PStr ''30%'')]
      ''max_unavailable''
   \<and> RollingUpdateDeployment [] [] [(''max_surge'', PStr ''30%''), (''max_unavailable'', PNone)] =
      RollingUpdateDeployment [] [] [(''max_surge'', PStr ''30%'')]
   \<and> unset_optional DeploymentStrategy_params [] [(''type'', PStr ''Recreate'')] ''rolling_update''
   \<and> DeploymentStrategy [] [] [(''rolling_update'', PNone), (''type'', PStr ''Recreate'')] =
      DeploymentStrategy [] [] [(''type'', PStr ''Recreate'')]
   \<and> unset_optional DeploymentSpec_params [PStr ''t''] [(''paused'', PBool False)] ''replicas''
   \<and> DeploymentSpec [] [PStr ''t''] [(''paused'', PBool False), (''replicas'', PNone)] =
      DeploymentSpec [] [PStr ''t''] [(''paused'', PBool False)]
   \<and> unset_optional Deployment_params [PStr ''m'', PStr ''s''] [] ''api_version''
   \<and> Deployment (\<lambda>c a. [(''apiVersion'', a)]) [] [PStr ''m'', PStr ''s'']
        [(''api_version'', PNone)] =
      Deployment (\<lambda>c a. [(''apiVersion'', a)]) [] [PStr ''m'', PStr ''s''] []
   \<and> unset_optional DeploymentList_params [PList []] [(''metadata'', PStr ''m'')] ''api_version''
   \<and> DeploymentList (\<lambda>c a. [(''apiVersion'', a)]) [] [PList []]
        [(''metadata'', PStr ''m''), (''api_version'', PNone)] =
      DeploymentList (\<lambda>c a. [(''apiVersion'', a)]) [] [PList []] [(''metadata'', PStr ''m'')]"
proof -
  have 1: "unset_optional RollingUpdateDeployment_params [] ([(''max_surge'', PStr ''30%'')] @ [])
      ''max_unavailable''"
    by (simp add: unset_optional_def RollingUpdateDeployment_params_def)
  have 2: "unset_optional DeploymentStrategy_params [] ([] @ [(''type'', PStr ''Recreate'')])
      ''rolling_update''"
    by (simp add: unset_optional_def DeploymentStrategy_params_def)
  have 3: "unset_optional DeploymentSpec_params [PStr ''t''] ([(''paused'', PBool False)] @ [])
      ''replicas''"
    by (simp add: unset_optional_def DeploymentSpec_params_def)
  have 4: "unset_optional Deployment_params [PStr ''m'', PStr ''s''] ([] @ []) ''api_version''"
    by (simp add: unset_optional_def Deployment_params_def)
  have 5: "unset_optional DeploymentList_params [PList []] ([(''metadata'', PStr ''m'')] @ [])
      ''api_version''"
    by (simp add: unset_optional_def DeploymentList_params_def)
  show ?thesis
    using 1 2 3 4 5
      explicit_None_is_unset [where h = "[]" and base = "\<lambda>c a. [(''apiVersion'', a)]"
        and ?pos1.0 = "[]" and ?ka1.0 = "[(''max_surge'', PStr ''30%'')]" and ?kb1.0 = "[]"
        and ?n1.0 = "''max_unavailable''"
        and ?pos2.0 = "[]" and ?ka2.0 = "[]" and ?kb2.0 = "[(''type'', PStr ''Recreate'')]"
        and ?n2.0 = "''rolling_update''"
        and ?pos3.0 = "[PStr ''t'']" and ?ka3.0 = "[(''paused'', PBool False)]" and ?kb3.0 = "[]"
        and ?n3.0 = "''replicas''"
        and ?pos4.0 = "[PStr ''m'', PStr ''s'']" and ?ka4.0 = "[]" and ?kb4.0 = "[]"
        and ?n4.0 = "''api_version''"
        and ?pos5.0 = "[PList []]" and ?ka5.0 = "[(''metadata'', PStr ''m'')]" and ?kb5.0 = "[]"
        and ?n5.0 = "''api_version''"]
    by simp
qed

subsection \<open>Construction changes no existing object\<close>

lemma frame_refl: "frame self h h"
  by (simp add: frame_def)

lemma frame_trans: "frame self h h1 \<Longrightarrow> frame self h1 h2 \<Longrightarrow> frame self h h2"
  by (simp add: frame_def)

lemma frame_setattr: "frame self h (setattr h self k v)"
  by (simp add: frame_def setattr_def drop_update_cancel)

lemma frame_setattr_step: "frame self h h1 \<Longrightarrow> frame self h (setattr h1 self k v)"
  by (erule frame_trans) (rule frame_setattr)

lemma frame_fold_setattr:
  "frame self h (fold (\<lambda>kv h'. setattr h' self (fst kv) (snd kv)) kvs h)"
proof (induction kvs arbitrary: h)
  case Nil
  show ?case by (simp add: frame_refl)
next
  case (Cons kv kvs)
  have "frame self h (setattr h self (fst kv) (snd kv))"
    by (rule frame_setattr)
  moreover have "frame self (setattr h self (fst kv) (snd kv))
      (fold (\<lambda>kv h'. setattr h' self (fst kv) (snd kv)) kvs (setattr h self (fst kv) (snd kv)))"
    by (rule Cons.IH)
  ultimately show ?case
    by (simp add: frame_trans)
qed

lemma frame_super_init: "frame self h (super_init base h self a)"
  by (simp add: super_init_def frame_fold_setattr frame_refl)

lemma frame_super_init_step: "frame self h h1 \<Longrightarrow> frame self h (super_init base h1 self a)"
  by (erule frame_trans) (rule frame_super_init)

lemma frame_inits:
  "frame self h (RollingUpdateDeployment_init h self a1 a2)"
  "frame self h (DeploymentStrategy_init h self a1 a2)"
  "frame self h (DeploymentSpec_init h self a1 a2 a3 a4 a5 a6 a7 a8)"
  "frame self h (DeploymentCondition_init h self a1 a2 a3 a4 a5)"
  "frame self h (Deployment_init base h self a1 a2 a3)"
  "frame self h (DeploymentList_init base h self a1 a2 a3)"
  by (simp_all add: RollingUpdateDeployment_init_def DeploymentStrategy_init_def
      DeploymentSpec_init_def DeploymentCondition_init_def Deployment_init_def
      DeploymentList_init_def Let_def frame_setattr_step frame_super_init_step frame_refl)

lemma only_adds_alloc_init:
  assumes "frame (length h) (h @ [ob]) h'"
  shows "only_adds h (Inr (h', length h))"
  using assms by (auto simp: only_adds_def frame_def)

lemma only_adds_Inl: "only_adds h (Inl e)"
  by (simp add: only_adds_def)

lemma only_adds_calls:
  "only_adds h (RollingUpdateDeployment h pos kw)"
  "only_adds h (DeploymentStrategy h pos kw)"
  "only_adds h (DeploymentSpec h pos kw)"
  "only_adds h (DeploymentCondition h pos kw)"
  "only_adds h (Deployment base h pos kw)"
  "only_adds h (DeploymentList base h pos kw)"
  unfolding RollingUpdateDeployment_def DeploymentStrategy_def
      DeploymentSpec_def DeploymentCondition_def Deployment_def DeploymentList_def alloc_def
  by (auto split: sum.splits intro!: only_adds_alloc_init frame_inits simp: only_adds_Inl)

lemma frame_own_assignments:
  "frame self (super_init base h self a3) (Deployment_init base h self a1 a2 a3)"
  "frame self (super_init base h self a3) (DeploymentList_init base h self a1 a2 a3)"
  by (simp_all add: Deployment_init_def DeploymentList_init_def Let_def frame_setattr_step
      frame_refl)

lemma keeps_refl: "keeps h h"
  by (simp add: keeps_def)

lemma keeps_trans: "keeps h h1 \<Longrightarrow> keeps h1 h2 \<Longrightarrow> keeps h h2"
proof -
  assume a: "keeps h h1" and b: "keeps h1 h2"
  from a have le: "length h \<le> length h1" and t1: "take (length h) h1 = h"
    by (simp_all add: keeps_def)
  from b have le2: "length h1 \<le> length h2" and t2: "take (length h1) h2 = h1"
    by (simp_all add: keeps_def)
  from le have "take (length h) h2 = take (length h) (take (length h1) h2)"
    by (simp add: min_def)
  also have "\<dots> = h"
    unfolding t2 by (rule t1)
  finally show ?thesis
    using le le2 by (simp add: keeps_def)
qed

lemma keeps_nth: "keeps h h' \<Longrightarrow> a < length h \<Longrightarrow> h' ! a = h ! a"
proof -
  assume k: "keeps h h'" and a: "a < length h"
  from a have "take (length h) h' ! a = h' ! a"
    by simp
  with k show ?thesis
    by (simp add: keeps_def)
qed

lemma keeps_getattr: "keeps h h' \<Longrightarrow> a < length h \<Longrightarrow> getattr h' a k = getattr h a k"
proof -
  assume k: "keeps h h'" and a: "a < length h"
  from k a have "a < length h'"
    by (simp add: keeps_def)
  with a keeps_nth [OF k a] show ?thesis
    by (simp add: getattr_def)
qed

lemma only_adds_keeps: "only_adds h (Inr (h', a)) \<Longrightarrow> keeps h h'"
  by (simp add: only_adds_def keeps_def)

lemma only_adds_construct: "only_adds h (construct base c h pos kw)"
  by (cases c) (simp_all add: only_adds_calls)

lemma keeps_perform: "keeps h (fst (perform base rnd h x))"
proof (cases x)
  case (Construct c pos kw)
  show ?thesis
  proof (cases "construct base c h pos kw")
    case (Inl e)
    with Construct show ?thesis by (simp add: keeps_refl)
  next
    case (Inr r)
    obtain h' a where r: "r = (h', a)" by (cases r)
    have "only_adds h (construct base c h pos kw)"
      by (rule only_adds_construct)
    with Inr r have "keeps h h'"
      by (simp add: only_adds_keeps)
    with Construct Inr r show ?thesis by simp
  qed
next
  case (Render v)
  then show ?thesis by (simp add: keeps_refl)
qed

lemma keeps_run: "keeps h (run base rnd h xs)"
proof (induction xs arbitrary: h)
  case Nil
  show ?case by (simp add: keeps_refl)
next
  case (Cons x xs)
  have "keeps h (fst (perform base rnd h x))"
    by (rule keeps_perform)
  moreover have "keeps (fst (perform base rnd h x)) (run base rnd (fst (perform base rnd h x)) xs)"
    by (rule Cons.IH)
  ultimately show ?case
    by (simp add: keeps_trans)
qed

lemma declared_methods_init: "declared_methods c = [''__init__'']"
  by (cases c) simp_all

text \<open>
  Claim C9. The classes of the file declare no setter and no other method than
  \<^verbatim>\<open>__init__\<close>, and each \<^verbatim>\<open>__init__\<close> assigns attributes of the instance it runs on only:
  it leaves the number of objects in the store and every object at another address as
  they are (for \<open>Deployment\<close> and \<open>DeploymentList\<close> the two assignments that follow the call
  of the base initialiser do so whatever that initialiser did, and the whole \<^verbatim>\<open>__init__\<close>
  does so for a base initialiser that assigns attributes of \<open>self\<close>). A constructor call
  either raises or returns the store it was given with exactly one new object behind it.
  Hence no operation of the model, a construction or a render, and no sequence of them
  changes a field of an object constructed before: every attribute of such an object
  reads afterwards as it read before. (The serializer is inherited from \<^verbatim>\<open>HelmYaml\<close>,
  outside this file; it enters as any function from a store and a value to a text or an
  error, which is the contract of the specification.)

  The objects are not immutable, though: they are plain Python instances, and an
  assignment to an attribute, or a second call of \<^verbatim>\<open>__init__\<close> on the instance, changes a
  constructed object, as the last theorem of this subsection shows.
\<close>

theorem constructed_objects_are_not_changed:
  "declared_methods c = [''__init__'']
   \<and> frame self h (RollingUpdateDeployment_init h self a1 a2)
   \<and> frame self h (DeploymentStrategy_init h self a1 a2)
   \<and> frame self h (DeploymentSpec_init h self a1 a2 a3 a4 a5 a6 a7 a8)
   \<and> frame self h (DeploymentCondition_init h self a1 a2 a3 a4 a5)
   \<and> frame self h (Deployment_init base h self a1 a2 a3)
   \<and> frame self h (DeploymentList_init base h self a1 a2 a3)
   \<and> frame self (super_init base h self a3) (Deployment_init base h self a1 a2 a3)
   \<and> frame self (super_init base h self a3) (DeploymentList_init base h self a1 a2 a3)
   \<and> only_adds h (RollingUpdateDeployment h pos kw)
   \<and> only_adds h (DeploymentStrategy h pos kw)
   \<and> only_adds h (DeploymentSpec h pos kw)
   \<and> only_adds h (DeploymentCondition h pos kw)
   \<and> only_adds h (Deployment base h pos kw)
   \<and> only_adds h (DeploymentList base h pos kw)
   \<and> only_adds h (construct base c h pos kw)
   \<and> fst (perform base rnd h (Render v)) = h
   \<and> keeps h (fst (perform base rnd h x))
   \<and> keeps h (run base rnd h xs)
   \<and> (a < length h \<longrightarrow> getattr (run base rnd h xs) a k = getattr h a k)"
  by (intro conjI impI frame_inits frame_own_assignments only_adds_calls only_adds_construct
      keeps_perform keeps_run keeps_getattr declared_methods_init) simp

theorem constructed_objects_are_not_changed_witness:
  "run (\<lambda>c a. [(''apiVersion'', a)]) (\<lambda>h v. Inl UnsupportedTypeError)
     [\<lparr>obj_class = ''DeploymentStrategy'', obj_dict = [(''type'', PStr ''Recreate'')]\<rparr>]
     [Construct RollingUpdateDeployment_class [PStr ''30%''] [], Render (PRef 0),
      Construct Deployment_class [PRef 1] [], Render (PRef 1),
      Construct Deployment_class [POpaque ''ObjectMeta'', PRef 0] []] =
   [\<lparr>obj_class = ''DeploymentStrategy'', obj_dict = [(''type'', PStr ''Recreate'')]\<rparr>,
    \<lparr>obj_class = ''RollingUpdateDeployment'',
     obj_dict = [(''maxSurge'', PStr ''30%''), (''maxUnavailable'', PNone)]\<rparr>,
    \<lparr>obj_class = ''Deployment'',
     obj_dict = [(''apiVersion'', PNone), (''metadata'', POpaque ''ObjectMeta''),
       (''spec'', PRef 0)]\<rparr>]
   \<and> (0::nat) < length
       [\<lparr>obj_class = ''DeploymentStrategy'', obj_dict = [(''type'', PStr ''Recreate'')]\<rparr>]
   \<and> getattr
       (run (\<lambda>c a. [(''apiVersion'', a)]) (\<lambda>h v. Inl UnsupportedTypeError)
         [\<lparr>obj_class = ''DeploymentStrategy'', obj_dict = [(''type'', PStr ''Recreate'')]\<rparr>]
         [Construct RollingUpdateDeployment_class [PStr ''30%''] [], Render (PRef 0),
          Construct Deployment_class [PRef 1] [], Render (PRef 1),
          Construct Deployment_class [POpaque ''ObjectMeta'', PRef 0] []]) 0 ''type'' =
     Inr (PStr ''Recreate'')"
proof -
  have r: "run (\<lambda>c a. [(''apiVersion'', a)]) (\<lambda>h v. Inl UnsupportedTypeError)
     [\<lparr>obj_class = ''DeploymentStrategy'', obj_dict = [(''type'', PStr ''Recreate'')]\<rparr>]
     [Construct RollingUpdateDeployment_class [PStr ''30%''] [], Render (PRef 0),
      Construct Deployment_class [PRef 1] [], Render (PRef 1),
      Construct Deployment_class [POpaque ''ObjectMeta'', PRef 0] []] =
   [\<lparr>obj_class = ''DeploymentStrategy'', obj_dict = [(''type'', PStr ''Recreate'')]\<rparr>,
    \<lparr>obj_class = ''RollingUpdateDeployment'',
     obj_dict = [(''maxSurge'', PStr ''30%''), (''maxUnavailable'', PNone)]\<rparr>,
    \<lparr>obj_class = ''Deployment'',
     obj_dict = [(''apiVersion'', PNone), (''metadata'', POpaque ''ObjectMeta''),
       (''spec'', PRef 0)]\<rparr>]"
    by (simp add: RollingUpdateDeployment_def RollingUpdateDeployment_params_def
        RollingUpdateDeployment_init_def Deployment_def Deployment_params_def
        Deployment_init_def super_init_def bind_args_def arg_def alloc_def setattr_def)
  have g: "getattr
       [\<lparr>obj_class = ''DeploymentStrategy'', obj_dict = [(''type'', PStr ''Recreate'')]\<rparr>]
       0 ''type'' = Inr (PStr ''Recreate'')"
    by (simp add: getattr_def)
  from constructed_objects_are_not_changed
      [where h = "[\<lparr>obj_class = ''DeploymentStrategy'',
                     obj_dict = [(''type'', PStr ''Recreate'')]\<rparr>]"
         and base = "\<lambda>c a. [(''apiVersion'', a)]"
         and rnd = "\<lambda>h v. Inl UnsupportedTypeError"
         and xs = "[Construct RollingUpdateDeployment_class [PStr ''30%''] [], Render (PRef 0),
            Construct Deployment_class [PRef 1] [], Render (PRef 1),
            Construct Deployment_class [POpaque ''ObjectMeta'', PRef 0] []]"
         and a = 0 and k = "''type''"]
  have "getattr
       (run (\<lambda>c a. [(''apiVersion'', a)]) (\<lambda>h v. Inl UnsupportedTypeError)
         [\<lparr>obj_class = ''DeploymentStrategy'', obj_dict = [(''type'', PStr ''Recreate'')]\<rparr>]
         [Construct RollingUpdateDeployment_class [PStr ''30%''] [], Render (PRef 0),
          Construct Deployment_class [PRef 1] [], Render (PRef 1),
          Construct Deployment_class [POpaque ''ObjectMeta'', PRef 0] []]) 0 ''type'' =
     getattr
       [\<lparr>obj_class = ''DeploymentStrategy'', obj_dict = [(''type'', PStr ''Recreate'')]\<rparr>]
       0 ''type''"
    by simp
  with r g show ?thesis
    by simp
qed

text \<open>
  The objects are not immutable. \<open>r = RollingUpdateDeployment('30%')\<close> has
  \<open>maxSurge = '30%'\<close>; after the assignment \<open>r.maxSurge = '50%'\<close> it has \<open>maxSurge = '50%'\<close>,
  and after \<open>r.__init__('70%')\<close>, a second run of the one method the class declares, it
  has \<open>maxSurge = '70%'\<close>.
\<close>

theorem assignment_changes_a_constructed_object:
  "RollingUpdateDeployment [] [PStr ''30%''] [] =
     Inr ([\<lparr>obj_class = ''RollingUpdateDeployment'',
            obj_dict = [(''maxSurge'', PStr ''30%''), (''maxUnavailable'', PNone)]\<rparr>], 0)
   \<and> getattr [\<lparr>obj_class = ''RollingUpdateDeployment'',
            obj_dict = [(''maxSurge'', PStr ''30%''), (''maxUnavailable'', PNone)]\<rparr>] 0
         ''maxSurge'' = Inr (PStr ''30%'')
   \<and> getattr (setattr [\<lparr>obj_class = ''RollingUpdateDeployment'',
            obj_dict = [(''maxSurge'', PStr ''30%''), (''maxUnavailable'', PNone)]\<rparr>] 0
           ''maxSurge'' (PStr ''50%'')) 0 ''maxSurge'' = Inr (PStr ''50%'')
   \<and> getattr (RollingUpdateDeployment_init [\<lparr>obj_class = ''RollingUpdateDeployment'',
            obj_dict = [(''maxSurge'', PStr ''30%''), (''maxUnavailable'', PNone)]\<rparr>] 0
           (PStr ''70%'') PNone) 0 ''maxSurge'' = Inr (PStr ''70%'')"
  by (simp add: RollingUpdateDeployment_def RollingUpdateDeployment_params_def
      RollingUpdateDeployment_init_def bind_args_def arg_def alloc_def setattr_def getattr_def)

section \<open>Verified properties of the serializer\<close>

subsection \<open>Keys and indentation\<close>

lemma length_indent: "length (indent n) = 2 * n"
  by (simp add: indent_def)

lemma ident_char_not_colon: "ident_char c \<Longrightarrow> c \<noteq> CHR '':''"
  by (auto simp: ident_char_def)

lemma ident_char_not_space: "ident_char c \<Longrightarrow> c \<noteq> CHR '' ''"
  by (auto simp: ident_char_def)

lemma ident_char_not_dash: "ident_char c \<Longrightarrow> c \<noteq> CHR ''-''"
  by (auto simp: ident_char_def)

lemma ident_char_not_newline: "ident_char c \<Longrightarrow> c \<noteq> CHR 0x0A"
  by (auto simp: ident_char_def)

lemma takeWhile_identifier:
  assumes "list_all ident_char k"
  shows "takeWhile (\<lambda>c. c \<noteq> CHR '':'') (k @ CHR '':'' # r) = k"
proof -
  from assms have "\<forall>c \<in> set k. c \<noteq> CHR '':''"
    by (auto simp: list_all_iff dest: ident_char_not_colon)
  then show ?thesis
    by (simp add: takeWhile_append2)
qed

lemma line_key_entry:
  assumes "py_identifier k"
  shows "line_key n (indent n @ k @ CHR '':'' # r) = Some k"
proof -
  from assms have "list_all ident_char k"
    by (simp add: py_identifier_def)
  then have "takeWhile (\<lambda>c. c \<noteq> CHR '':'') (k @ CHR '':'' # r) = k"
    by (rule takeWhile_identifier)
  with assms show ?thesis
    by (simp add: line_key_def length_indent)
qed

lemma line_key_deeper:
  "line_key n (indent (Suc n) @ r) = None"
proof -
  have "replicate (2 * n + 2) CHR '' '' = replicate (2 * n) CHR '' '' @ replicate 2 CHR '' ''"
    by (rule replicate_add)
  then have "indent (Suc n) = indent n @ ''  ''"
    by (simp add: indent_def numeral_2_eq_2)
  then have "drop (2 * n) (indent (Suc n) @ r) = CHR '' '' # CHR '' '' # r"
    by (simp add: length_indent)
  then have "\<not> py_identifier (takeWhile (\<lambda>c. c \<noteq> CHR '':'') (drop (2 * n) (indent (Suc n) @ r)))"
    by (simp add: py_identifier_def ident_char_def)
  then show ?thesis
    by (simp add: line_key_def)
qed


lemma indent_Suc: "indent (Suc n) = indent n @ ''  ''"
proof -
  have "replicate (2 * n + 2) CHR '' '' = replicate (2 * n) CHR '' '' @ replicate 2 CHR '' ''"
    by (rule replicate_add)
  then show ?thesis
    by (simp add: indent_def numeral_2_eq_2)
qed

lemma entry_indented:
  assumes "l \<in> set (entry n k f)" "\<And>l. l \<in> set (form_lines f) \<Longrightarrow> f \<noteq> Inline l \<Longrightarrow> \<exists>r. l = indent (Suc n) @ r"
  shows "\<exists>r. l = indent n @ r"
proof (cases f)
  case (Inline s)
  with assms(1) show ?thesis by simp
next
  case (Block ls)
  with assms(1) have "l = indent n @ k @ '':'' \<or> l \<in> set ls" by auto
  then show ?thesis
  proof
    assume "l = indent n @ k @ '':''"
    then show ?thesis by blast
  next
    assume "l \<in> set ls"
    with assms(2) Block obtain r where "l = indent (Suc n) @ r" by fastforce
    then show ?thesis by (auto simp: indent_Suc)
  qed
qed

lemma item_indented:
  assumes "l \<in> set (item n f)" "\<And>l. l \<in> set (form_lines f) \<Longrightarrow> f \<noteq> Inline l \<Longrightarrow> \<exists>r. l = indent (Suc n) @ r"
  shows "\<exists>r. l = indent n @ r"
proof (cases f)
  case (Inline s)
  with assms(1) show ?thesis by simp
next
  case (Block ls)
  with assms(1) have "l = indent n @ ''-'' \<or> l \<in> set ls" by auto
  then show ?thesis
  proof
    assume "l = indent n @ ''-''"
    then show ?thesis by blast
  next
    assume "l \<in> set ls"
    with assms(2) Block obtain r where "l = indent (Suc n) @ r" by fastforce
    then show ?thesis by (auto simp: indent_Suc)
  qed
qed

lemma render_indented:
  "render_value h path n v = Inr (Block ls) \<Longrightarrow> l \<in> set ls \<Longrightarrow> \<exists>r. l = indent n @ r"
  "render_fields h path n kvs = Inr ls \<Longrightarrow> l \<in> set ls \<Longrightarrow> \<exists>r. l = indent n @ r"
  "render_items h path n vs = Inr ls \<Longrightarrow> l \<in> set ls \<Longrightarrow> \<exists>r. l = indent n @ r"
proof (induction h path n v and h path n kvs and h path n vs arbitrary: ls l and ls l and ls l
    rule: render_value_render_fields_render_items.induct)
  case (1 h path n vs)
  then show ?case by (auto split: sum.splits if_splits)
next
  case (2 h path n a)
  then show ?case by (auto split: sum.splits if_splits)
next
  case (4 h path n)
  then show ?case by simp
next
  case (5 h path n kv kvs)
  show ?case
  proof (cases "snd kv = PNone")
    case True
    with 5 show ?thesis by simp
  next
    case False
    with "5.prems" obtain f rest where f: "render_value h path (Suc n) (snd kv) = Inr f"
      and rest: "render_fields h path n kvs = Inr rest"
      and ls: "ls = entry n (fst kv) f @ rest"
      by (auto split: sum.splits)
    from "5.prems"(2) ls have "l \<in> set (entry n (fst kv) f) \<or> l \<in> set rest" by auto
    then show ?thesis
    proof
      assume "l \<in> set (entry n (fst kv) f)"
      then show ?thesis
      proof (rule entry_indented)
        fix l' assume "l' \<in> set (form_lines f)" "f \<noteq> Inline l'"
        then obtain bs where "f = Block bs" "l' \<in> set bs" by (cases f) auto
        with "5.IH"(2) [OF False] f show "\<exists>r. l' = indent (Suc n) @ r" by blast
      qed
    next
      assume "l \<in> set rest"
      with "5.IH"(3) [OF False f rest] show ?thesis by blast
    qed
  qed
next
  case (6 h path n)
  then show ?case by simp
next
  case (7 h path n v vs)
  from "7.prems" obtain f rest where f: "render_value h path (Suc n) v = Inr f"
    and rest: "render_items h path n vs = Inr rest"
    and ls: "ls = item n f @ rest"
    by (auto split: sum.splits)
  from "7.prems"(2) ls have "l \<in> set (item n f) \<or> l \<in> set rest" by auto
  then show ?case
  proof
    assume "l \<in> set (item n f)"
    then show ?thesis
    proof (rule item_indented)
      fix l' assume "l' \<in> set (form_lines f)" "f \<noteq> Inline l'"
      then obtain bs where "f = Block bs" "l' \<in> set bs" by (cases f) auto
      with "7.IH"(1) f show "\<exists>r. l' = indent (Suc n) @ r" by blast
    qed
  next
    assume "l \<in> set rest"
    with "7.IH"(2) [OF f rest] show ?thesis by blast
  qed
qed (auto split: option.splits)


lemma keys_at_append: "keys_at n (xs @ ys) = keys_at n xs @ keys_at n ys"
  by (simp add: keys_at_def map_filter_def)

lemma keys_at_Nil: "keys_at n [] = []"
  by (simp add: keys_at_def map_filter_def)

lemma keys_at_deeper:
  assumes "\<And>l. l \<in> set ls \<Longrightarrow> \<exists>r. l = indent (Suc n) @ r"
  shows "keys_at n ls = []"
proof -
  have "line_key n l = None" if "l \<in> set ls" for l
  proof -
    from that assms obtain r where "l = indent (Suc n) @ r" by blast
    then show ?thesis by (simp add: line_key_deeper)
  qed
  then show ?thesis
    by (simp add: keys_at_def map_filter_def filter_empty_conv)
qed

lemma keys_at_entry:
  assumes "py_identifier k" "render_value h path (Suc n) v = Inr f"
  shows "keys_at n (entry n k f) = [k]"
proof (cases f)
  case (Inline s)
  have "line_key n (indent n @ k @ CHR '':'' # (CHR '' '' # s)) = Some k"
    using assms(1) by (rule line_key_entry)
  with Inline show ?thesis
    by (simp add: keys_at_def map_filter_def)
next
  case (Block ls)
  have first: "line_key n (indent n @ k @ CHR '':'' # []) = Some k"
    using assms(1) by (rule line_key_entry)
  have "keys_at n ls = []"
  proof (rule keys_at_deeper)
    fix l assume "l \<in> set ls"
    with assms(2) Block show "\<exists>r. l = indent (Suc n) @ r"
      using render_indented(1) by blast
  qed
  then have "List.map_filter (line_key n) ls = []"
    by (simp add: keys_at_def)
  with first Block show ?thesis
    by (simp add: keys_at_def map_filter_simps)
qed

lemma render_fields_keys:
  "render_fields h path n kvs = Inr ls \<Longrightarrow> list_all py_identifier (map fst kvs) \<Longrightarrow>
   keys_at n ls = map fst (present kvs)"
proof (induction kvs arbitrary: ls)
  case Nil
  then show ?case by (simp add: keys_at_Nil present_def)
next
  case (Cons kv kvs)
  show ?case
  proof (cases "snd kv = PNone")
    case True
    with Cons show ?thesis by (simp add: present_def)
  next
    case False
    with Cons.prems obtain f rest where f: "render_value h path (Suc n) (snd kv) = Inr f"
      and rest: "render_fields h path n kvs = Inr rest"
      and ls: "ls = entry n (fst kv) f @ rest"
      by (auto split: sum.splits)
    from Cons.prems(2) have "py_identifier (fst kv)" "list_all py_identifier (map fst kvs)"
      by simp_all
    then have "keys_at n (entry n (fst kv) f) = [fst kv]"
      and "keys_at n rest = map fst (present kvs)"
      using f rest Cons.IH by (simp_all add: keys_at_entry)
    with ls False show ?thesis
      by (simp add: keys_at_append present_def)
  qed
qed

lemma keys_at_empty_braces: "keys_at n [''{}''] = []"
proof -
  have "CHR '':'' \<notin> set (drop (2 * n) ''{}'')"
    by (auto dest: in_set_dropD)
  then have "line_key n ''{}'' = None"
    by (simp add: line_key_def)
  then show ?thesis
    by (simp add: keys_at_def map_filter_simps)
qed

lemma wf_heap_nth: "wf_heap h \<Longrightarrow> a < length h \<Longrightarrow> wf_obj (h ! a)"
  by (simp add: wf_heap_def list_all_length)

lemma render_object_keys:
  assumes "wf_heap h" "render_value h path n (PRef a) = Inr f"
  shows "keys_at n (form_lines f) = map fst (present (obj_dict (h ! a)))"
proof -
  from assms(2) have a: "a < length h" "a \<notin> set path"
    by (auto split: if_splits)
  with assms(2) obtain ls where ls: "render_fields h (a # path) n (obj_dict (h ! a)) = Inr ls"
    and f: "f = (if ls = [] then Inline ''{}'' else Block ls)"
    by (auto split: sum.splits)
  from assms(1) a have "list_all py_identifier (map fst (obj_dict (h ! a)))"
    using wf_heap_nth wf_obj_def by blast
  with ls have keys: "keys_at n ls = map fst (present (obj_dict (h ! a)))"
    by (rule render_fields_keys)
  show ?thesis
  proof (cases "ls = []")
    case True
    with keys f show ?thesis by (simp add: keys_at_empty_braces keys_at_Nil)
  next
    case False
    with keys f show ?thesis by simp
  qed
qed

subsection \<open>The lines of the text\<close>

lemma text_lines_single: "CHR 0x0A \<notin> set l \<Longrightarrow> text_lines l = [l]"
  by (induction l) auto

lemma text_lines_cons:
  "CHR 0x0A \<notin> set l \<Longrightarrow> text_lines (l @ CHR 0x0A # s) = l # text_lines s"
  by (induction l) (auto split: list.splits)

lemma text_lines_join:
  "ls \<noteq> [] \<Longrightarrow> (\<And>l. l \<in> set ls \<Longrightarrow> CHR 0x0A \<notin> set l) \<Longrightarrow> text_lines (join_lines ls) = ls"
proof (induction ls rule: join_lines.induct)
  case 1
  then show ?case by simp
next
  case (2 l)
  then show ?case by (simp add: text_lines_single)
next
  case (3 l v va)
  then show ?case by (simp add: text_lines_cons)
qed

lemma show_nat_no_newline: "CHR 0x0A \<notin> set (show_nat n)"
proof (induction n rule: show_nat.induct)
  case (1 n)
  have d: "CHR 0x0A \<noteq> digit_char m" for m
  proof (cases "m < 10")
    case True
    then have "m \<in> {0, 1, 2, 3, 4, 5, 6, 7, 8, 9}" by auto
    then show ?thesis by (auto simp: digit_char_def)
  next
    case False
    then show ?thesis by (simp add: digit_char_def)
  qed
  show ?case
  proof (cases "n < 10")
    case True
    then show ?thesis using d by (simp add: show_nat.simps [of n])
  next
    case False
    with 1 show ?thesis using d by (simp add: show_nat.simps [of n])
  qed
qed

lemma escape_no_newline: "CHR 0x0A \<notin> set (escape s)"
  by (induction s) auto

lemma plain_no_newline:
  assumes "list_all plain_char s"
  shows "CHR 0x0A \<notin> set s"
proof
  assume "CHR 0x0A \<in> set s"
  with assms have "plain_char (CHR 0x0A)"
    by (simp add: list_all_iff)
  then show False
    by (simp add: plain_char_def)
qed

lemma show_int_no_newline: "CHR 0x0A \<notin> set (show_int i)"
  by (simp add: show_int_def show_nat_no_newline)

lemma two_digits_no_newline: "CHR 0x0A \<notin> set (two_digits n)"
  by (simp add: two_digits_def show_nat_no_newline)

lemma yaml_string_no_newline: "CHR 0x0A \<notin> set (yaml_string x)"
proof (cases "plain_safe x")
  case True
  then have "list_all plain_char x" by (simp add: plain_safe_def)
  with True show ?thesis by (simp add: yaml_string_def plain_no_newline)
next
  case False
  then show ?thesis by (simp add: yaml_string_def escape_no_newline)
qed

lemma scalar_no_newline: "scalar_literal v = Some s \<Longrightarrow> CHR 0x0A \<notin> set s"
proof (cases v)
  case PNone
  assume "scalar_literal v = Some s"
  with PNone show ?thesis by auto
next
  case (PBool b)
  assume "scalar_literal v = Some s"
  with PBool show ?thesis by (cases b) auto
next
  case (PInt i)
  assume "scalar_literal v = Some s"
  with PInt show ?thesis using show_int_no_newline by auto
next
  case (PStr x)
  assume "scalar_literal v = Some s"
  with PStr show ?thesis using yaml_string_no_newline by auto
next
  case (PTime hh mm ss)
  assume "scalar_literal v = Some s"
  with PTime have "s = two_digits hh @ '':'' @ two_digits mm @ '':'' @ two_digits ss" by simp
  then show ?thesis by (simp add: two_digits_no_newline)
qed simp_all

lemma indent_no_newline: "CHR 0x0A \<notin> set (indent n)"
  by (simp add: indent_def)

lemma identifier_no_newline: "py_identifier k \<Longrightarrow> CHR 0x0A \<notin> set k"
  by (auto simp: py_identifier_def list_all_iff dest: ident_char_not_newline)


lemma entry_no_newline:
  assumes "py_identifier k" "l \<in> set (entry n k f)"
    "\<And>l. l \<in> set (form_lines f) \<Longrightarrow> CHR 0x0A \<notin> set l"
  shows "CHR 0x0A \<notin> set l"
proof (cases f)
  case (Inline s)
  with assms(3) have "CHR 0x0A \<notin> set s" by simp
  with assms(1,2) Inline show ?thesis
    by (simp add: indent_no_newline identifier_no_newline)
next
  case (Block ls)
  with assms(2) have "l = indent n @ k @ '':'' \<or> l \<in> set ls" by auto
  then show ?thesis
  proof
    assume "l = indent n @ k @ '':''"
    with assms(1) show ?thesis
      by (simp add: indent_no_newline identifier_no_newline)
  next
    assume "l \<in> set ls"
    with assms(3) Block show ?thesis by simp
  qed
qed

lemma item_no_newline:
  assumes "l \<in> set (item n f)" "\<And>l. l \<in> set (form_lines f) \<Longrightarrow> CHR 0x0A \<notin> set l"
  shows "CHR 0x0A \<notin> set l"
proof (cases f)
  case (Inline s)
  with assms(2) have "CHR 0x0A \<notin> set s" by simp
  with assms(1) Inline show ?thesis
    by (simp add: indent_no_newline)
next
  case (Block ls)
  with assms(1) have "l = indent n @ ''-'' \<or> l \<in> set ls" by auto
  then show ?thesis
  proof
    assume "l = indent n @ ''-''"
    then show ?thesis
      by (simp add: indent_no_newline)
  next
    assume "l \<in> set ls"
    with assms(2) Block show ?thesis by simp
  qed
qed

lemma render_no_newline:
  "render_value h path n v = Inr f \<Longrightarrow> wf_heap h \<Longrightarrow> l \<in> set (form_lines f) \<Longrightarrow>
     CHR 0x0A \<notin> set l"
  "render_fields h path n kvs = Inr ls \<Longrightarrow> wf_heap h \<Longrightarrow>
     list_all py_identifier (map fst kvs) \<Longrightarrow> l \<in> set ls \<Longrightarrow> CHR 0x0A \<notin> set l"
  "render_items h path n vs = Inr ls \<Longrightarrow> wf_heap h \<Longrightarrow> l \<in> set ls \<Longrightarrow> CHR 0x0A \<notin> set l"
proof (induction h path n v and h path n kvs and h path n vs arbitrary: f l and ls l and ls l
    rule: render_value_render_fields_render_items.induct)
  case (1 h path n vs)
  from "1.prems"(1) obtain ls where ls: "render_items h path n vs = Inr ls"
    and f: "f = (if ls = [] then Inline ''[]'' else Block ls)"
    by (auto split: sum.splits)
  show ?case
  proof (cases "ls = []")
    case True
    with f "1.prems"(3) show ?thesis by simp
  next
    case False
    with f "1.prems"(3) have "l \<in> set ls" by simp
    with "1.IH" ls "1.prems"(2) show ?thesis by blast
  qed
next
  case (2 h path n a)
  from "2.prems"(1) have a: "a \<notin> set path" "\<not> length h \<le> a"
    by (auto split: if_splits)
  with "2.prems"(1) obtain ls where ls: "render_fields h (a # path) n (obj_dict (h ! a)) = Inr ls"
    and f: "f = (if ls = [] then Inline ''{}'' else Block ls)"
    by (auto split: sum.splits)
  from a "2.prems"(2) have ids: "list_all py_identifier (map fst (obj_dict (h ! a)))"
    using wf_heap_nth [of h a] by (simp add: wf_obj_def)
  show ?case
  proof (cases "ls = []")
    case True
    with f "2.prems"(3) show ?thesis by simp
  next
    case False
    with f "2.prems"(3) have "l \<in> set ls" by simp
    with "2.IH" [OF a ls "2.prems"(2) ids] show ?thesis by blast
  qed
next
  case (4 h path n)
  then show ?case by simp
next
  case (5 h path n kv kvs)
  show ?case
  proof (cases "snd kv = PNone")
    case True
    with 5 show ?thesis by simp
  next
    case False
    with "5.prems" obtain f rest where f: "render_value h path (Suc n) (snd kv) = Inr f"
      and rest: "render_fields h path n kvs = Inr rest"
      and ls: "ls = entry n (fst kv) f @ rest"
      by (auto split: sum.splits)
    from "5.prems"(3) have id: "py_identifier (fst kv)"
      and ids: "list_all py_identifier (map fst kvs)"
      by simp_all
    from "5.prems"(4) ls have "l \<in> set (entry n (fst kv) f) \<or> l \<in> set rest" by auto
    then show ?thesis
    proof
      assume "l \<in> set (entry n (fst kv) f)"
      with id show ?thesis
      proof (rule entry_no_newline)
        fix l' assume "l' \<in> set (form_lines f)"
        with "5.IH"(2) [OF False f "5.prems"(2)] show "CHR 0x0A \<notin> set l'" .
      qed
    next
      assume "l \<in> set rest"
      with "5.IH"(3) [OF False f rest "5.prems"(2) ids] show ?thesis .
    qed
  qed
next
  case (6 h path n)
  then show ?case by simp
next
  case (7 h path n v vs)
  from "7.prems" obtain f rest where f: "render_value h path (Suc n) v = Inr f"
    and rest: "render_items h path n vs = Inr rest"
    and ls: "ls = item n f @ rest"
    by (auto split: sum.splits)
  from "7.prems"(3) ls have "l \<in> set (item n f) \<or> l \<in> set rest" by auto
  then show ?case
  proof
    assume "l \<in> set (item n f)"
    then show ?thesis
    proof (rule item_no_newline)
      fix l' assume "l' \<in> set (form_lines f)"
      with "7.IH"(1) [OF f "7.prems"(2)] show "CHR 0x0A \<notin> set l'" .
    qed
  next
    assume "l \<in> set rest"
    with "7.IH"(2) [OF f rest "7.prems"(2)] show ?thesis .
  qed
qed (auto simp: show_int_no_newline yaml_string_no_newline two_digits_no_newline
    split: if_splits)

subsection \<open>Omission, order and scenario A\<close>

lemma form_lines_nonempty: "render_value h path n v = Inr f \<Longrightarrow> form_lines f \<noteq> []"
  by (cases v) (auto split: sum.splits if_splits option.splits)

lemma render_text_lines:
  assumes "wf_heap h" "render h v = Inr t"
  shows "\<exists>f. render_value h [] 0 v = Inr f \<and> text_lines t = form_lines f"
proof -
  from assms(2) obtain f where f: "render_value h [] 0 v = Inr f"
    and t: "t = join_lines (form_lines f)"
    by (auto simp: render_def split: sum.splits)
  from f have "form_lines f \<noteq> []"
    by (rule form_lines_nonempty)
  moreover have "CHR 0x0A \<notin> set l" if "l \<in> set (form_lines f)" for l
    using f assms(1) that by (rule render_no_newline(1))
  ultimately have "text_lines (join_lines (form_lines f)) = form_lines f"
    by (rule text_lines_join)
  with f t show ?thesis by simp
qed

lemma render_text_keys:
  assumes "wf_heap h" "render h (PRef a) = Inr t"
  shows "keys_at 0 (text_lines t) = map fst (present (obj_dict (h ! a)))"
proof -
  from assms obtain f where f: "render_value h [] 0 (PRef a) = Inr f"
    and t: "text_lines t = form_lines f"
    using render_text_lines by blast
  from assms(1) f have "keys_at 0 (form_lines f) = map fst (present (obj_dict (h ! a)))"
    by (rule render_object_keys)
  with t show ?thesis by simp
qed

lemma absent_not_present:
  assumes "wf_heap h" "a < length h" "map_of (obj_dict (h ! a)) k = Some PNone"
  shows "k \<notin> set (map fst (present (obj_dict (h ! a))))"
proof
  assume "k \<in> set (map fst (present (obj_dict (h ! a))))"
  then obtain v where v: "(k, v) \<in> set (obj_dict (h ! a))" "v \<noteq> PNone"
    by (auto simp: present_def)
  from assms(1,2) have "distinct (map fst (obj_dict (h ! a)))"
    using wf_heap_nth [of h a] by (simp add: wf_obj_def)
  with v(1) have "map_of (obj_dict (h ! a)) k = Some v"
    by simp
  with assms(3) v(2) show False by simp
qed

lemma render_PRef_valid: "render_value h path n (PRef a) = Inr f \<Longrightarrow> a < length h"
  by (auto split: if_splits)

lemma render_text_PRef_valid: "render h (PRef a) = Inr t \<Longrightarrow> a < length h"
  by (auto simp: render_def split: sum.splits if_splits)

text \<open>
  Claim C5 (on the serializer as the specification describes it). If a field of an object
  holds the Absent marker \<^verbatim>\<open>None\<close>, no line of the rendered object has the wire name of
  this field as its key at the nesting level of the object, whatever the other fields
  hold: this is shown for an object rendered at any nesting level \<open>n\<close> inside a document,
  and for the text of a document whose root the object is. The attribute names of the
  store are identifiers, distinct within one object (\<open>wf_heap\<close>).
\<close>

theorem absent_field_is_omitted:
  "(wf_heap h \<and> map_of (obj_dict (h ! a)) k = Some PNone
      \<and> render_value h path n (PRef a) = Inr f \<longrightarrow>
    k \<notin> set (keys_at n (form_lines f)))
   \<and> (wf_heap h \<and> map_of (obj_dict (h ! a)) k = Some PNone \<and> render h (PRef a) = Inr t \<longrightarrow>
    k \<notin> set (keys_at 0 (text_lines t)))"
proof (intro conjI impI)
  assume a: "wf_heap h \<and> map_of (obj_dict (h ! a)) k = Some PNone
      \<and> render_value h path n (PRef a) = Inr f"
  then have wf: "wf_heap h" and ab: "map_of (obj_dict (h ! a)) k = Some PNone"
    and r: "render_value h path n (PRef a) = Inr f"
    by blast+
  from r have "a < length h" by (rule render_PRef_valid)
  with wf have "k \<notin> set (map fst (present (obj_dict (h ! a))))"
    using ab by (rule absent_not_present)
  moreover from wf r have "keys_at n (form_lines f) = map fst (present (obj_dict (h ! a)))"
    by (rule render_object_keys)
  ultimately show "k \<notin> set (keys_at n (form_lines f))"
    by simp
next
  assume a: "wf_heap h \<and> map_of (obj_dict (h ! a)) k = Some PNone \<and> render h (PRef a) = Inr t"
  then have wf: "wf_heap h" and ab: "map_of (obj_dict (h ! a)) k = Some PNone"
    and r: "render h (PRef a) = Inr t"
    by blast+
  from r have "a < length h" by (rule render_text_PRef_valid)
  with wf have "k \<notin> set (map fst (present (obj_dict (h ! a))))"
    using ab by (rule absent_not_present)
  moreover from wf r have "keys_at 0 (text_lines t) = map fst (present (obj_dict (h ! a)))"
    by (rule render_text_keys)
  ultimately show "k \<notin> set (keys_at 0 (text_lines t))"
    by simp
qed

theorem absent_field_is_omitted_witness:
  "wf_heap [\<lparr>obj_class = ''RollingUpdateDeployment'',
             obj_dict = [(''maxSurge'', PStr ''30%''), (''maxUnavailable'', PNone)]\<rparr>]
   \<and> map_of (obj_dict ([\<lparr>obj_class = ''RollingUpdateDeployment'',
             obj_dict = [(''maxSurge'', PStr ''30%''), (''maxUnavailable'', PNone)]\<rparr>] ! 0))
         ''maxUnavailable'' = Some PNone
   \<and> render_value [\<lparr>obj_class = ''RollingUpdateDeployment'',
             obj_dict = [(''maxSurge'', PStr ''30%''), (''maxUnavailable'', PNone)]\<rparr>] [] 0
         (PRef 0) = Inr (Block [''maxSurge: 30%''])
   \<and> ''maxUnavailable'' \<notin> set (keys_at 0 (form_lines (Block [''maxSurge: 30%''])))
   \<and> render [\<lparr>obj_class = ''RollingUpdateDeployment'',
             obj_dict = [(''maxSurge'', PStr ''30%''), (''maxUnavailable'', PNone)]\<rparr>]
         (PRef 0) = Inr ''maxSurge: 30%''
   \<and> ''maxUnavailable'' \<notin> set (keys_at 0 (text_lines ''maxSurge: 30%''))"
proof -
  let ?h = "[\<lparr>obj_class = ''RollingUpdateDeployment'',
             obj_dict = [(''maxSurge'', PStr ''30%''), (''maxUnavailable'', PNone)]\<rparr>]"
  have wf: "wf_heap ?h"
    by (simp add: wf_heap_def wf_obj_def py_identifier_def ident_char_def)
  have ab: "map_of (obj_dict (?h ! 0)) ''maxUnavailable'' = Some PNone"
    by simp
  have rv: "render_value ?h [] 0 (PRef 0) = Inr (Block [''maxSurge: 30%''])"
    by (simp add: yaml_string_def plain_safe_def plain_char_def looks_numeric_def
        reserved_word_def indent_def)
  then have r: "render ?h (PRef 0) = Inr ''maxSurge: 30%''"
    by (simp add: render_def)
  show ?thesis
    using wf ab rv r
      absent_field_is_omitted [where h = ?h and a = 0 and k = "''maxUnavailable''"
        and path = "[]" and n = 0 and f = "Block [''maxSurge: 30%'']"
        and t = "''maxSurge: 30%''"]
    by blast
qed

text \<open>
  Claim C4 (scenario A, on the serializer as the specification describes it). Rendering
  the object \<open>RollingUpdateDeployment(max_surge="30%", max_unavailable=None)\<close> gives
  exactly the text \<open>maxSurge: 30%\<close>: one line, whose key is \<open>maxSurge\<close>, and no
  \<open>maxUnavailable\<close> key.
\<close>

theorem scenario_A_renders_maxSurge_only:
  "render_new (RollingUpdateDeployment h []
       [(''max_surge'', PStr ''30%''), (''max_unavailable'', PNone)]) = Inr ''maxSurge: 30%''
   \<and> keys_at 0 (text_lines ''maxSurge: 30%'') = [''maxSurge'']"
proof
  show "render_new (RollingUpdateDeployment h []
       [(''max_surge'', PStr ''30%''), (''max_unavailable'', PNone)]) = Inr ''maxSurge: 30%''"
    by (simp add: render_new_def RollingUpdateDeployment_kw render_def yaml_string_def
      plain_safe_def plain_char_def looks_numeric_def reserved_word_def indent_def)
  show "keys_at 0 (text_lines ''maxSurge: 30%'') = [''maxSurge'']"
    by (simp add: keys_at_def map_filter_simps line_key_def indent_def py_identifier_def
        ident_char_def)
qed


theorem scenario_A_renders_maxSurge_only_witness:
  "render_new (RollingUpdateDeployment [] []
       [(''max_surge'', PStr ''30%''), (''max_unavailable'', PNone)]) = Inr ''maxSurge: 30%''"
  using scenario_A_renders_maxSurge_only [of "[]"] by blast

lemma DeploymentSpec_render_keys:
  assumes "wf_heap h"
    "render_new (DeploymentSpec h [] [(''template'', t1), (''min_ready_seconds'', m1),
        (''paused'', p1), (''progress_deadline_seconds'', d1), (''replicas'', r1),
        (''revision_history_limit'', l1), (''selector'', s1), (''strategy'', g1)]) = Inr t"
  shows "keys_at 0 (text_lines t) =
      map fst (present [(''template'', t1), (''minReadySeconds'', m1), (''paused'', p1),
        (''progressDeadlineSeconds'', d1), (''replicas'', r1), (''revisionHistoryLimit'', l1),
        (''selector'', s1), (''strategy'', g1)])"
proof -
  let ?ob = "\<lparr>obj_class = ''DeploymentSpec'',
               obj_dict = [(''template'', t1), (''minReadySeconds'', m1), (''paused'', p1),
                 (''progressDeadlineSeconds'', d1), (''replicas'', r1),
                 (''revisionHistoryLimit'', l1), (''selector'', s1), (''strategy'', g1)]\<rparr>"
  have "wf_obj ?ob"
    by (simp add: wf_obj_def py_identifier_def ident_char_def)
  with assms(1) have wf: "wf_heap (h @ [?ob])"
    by (simp add: wf_heap_def)
  from assms(2) have "render (h @ [?ob]) (PRef (length h)) = Inr t"
    by (simp add: DeploymentSpec_kw render_new_def)
  with wf have "keys_at 0 (text_lines t) = map fst (present (obj_dict ((h @ [?ob]) ! length h)))"
    by (rule render_text_keys)
  then show ?thesis by simp
qed

text \<open>
  Claim C6 (on the serializer as the specification describes it). The keys of a rendered
  object, read from its lines at its nesting level, are the names of its fields that are
  not Absent, in the order in which the constructor assigned them: the declared order
  with the Absent fields left out, never a sorted order. For a DeploymentSpec the order is
  template, minReadySeconds, paused, progressDeadlineSeconds, replicas,
  revisionHistoryLimit, selector, strategy, whichever of them are Absent.
\<close>

theorem rendered_keys_in_declaration_order:
  "(wf_heap h \<and> render_value h path n (PRef a) = Inr f \<longrightarrow>
      keys_at n (form_lines f) = map fst (present (obj_dict (h ! a))))
   \<and> (wf_heap h \<and> render h (PRef a) = Inr t \<longrightarrow>
      keys_at 0 (text_lines t) = map fst (present (obj_dict (h ! a))))
   \<and> (wf_heap h \<and> render_new (DeploymentSpec h [] [(''template'', t1),
        (''min_ready_seconds'', m1), (''paused'', p1), (''progress_deadline_seconds'', d1),
        (''replicas'', r1), (''revision_history_limit'', l1), (''selector'', s1),
        (''strategy'', g1)]) = Inr t' \<longrightarrow>
      keys_at 0 (text_lines t') =
        map fst (present [(''template'', t1), (''minReadySeconds'', m1), (''paused'', p1),
          (''progressDeadlineSeconds'', d1), (''replicas'', r1), (''revisionHistoryLimit'', l1),
          (''selector'', s1), (''strategy'', g1)]))"
  using render_object_keys render_text_keys DeploymentSpec_render_keys by blast


lemma show_nat_3: "show_nat 3 = ''3''"
  by (simp add: show_nat.simps digit_char_def)

theorem rendered_keys_in_declaration_order_witness:
  "wf_heap [\<lparr>obj_class = ''DeploymentSpec'',
       obj_dict = [(''template'', PStr ''tpl''), (''minReadySeconds'', PNone),
         (''paused'', PBool False), (''progressDeadlineSeconds'', PNone),
         (''replicas'', PInt 3), (''revisionHistoryLimit'', PNone), (''selector'', PNone),
         (''strategy'', PNone)]\<rparr>]
   \<and> render_value [\<lparr>obj_class = ''DeploymentSpec'',
       obj_dict = [(''template'', PStr ''tpl''), (''minReadySeconds'', PNone),
         (''paused'', PBool False), (''progressDeadlineSeconds'', PNone),
         (''replicas'', PInt 3), (''revisionHistoryLimit'', PNone), (''selector'', PNone),
         (''strategy'', PNone)]\<rparr>] [] 0 (PRef 0) =
       Inr (Block [''template: tpl'', ''paused: false'', ''replicas: 3''])
   \<and> keys_at 0 [''template: tpl'', ''paused: false'', ''replicas: 3''] =
       [''template'', ''paused'', ''replicas'']
   \<and> render [\<lparr>obj_class = ''DeploymentSpec'',
       obj_dict = [(''template'', PStr ''tpl''), (''minReadySeconds'', PNone),
         (''paused'', PBool False), (''progressDeadlineSeconds'', PNone),
         (''replicas'', PInt 3), (''revisionHistoryLimit'', PNone), (''selector'', PNone),
         (''strategy'', PNone)]\<rparr>] (PRef 0) =
       Inr ''template: tpl\<newline>paused: false\<newline>replicas: 3''
   \<and> keys_at 0 (text_lines ''template: tpl\<newline>paused: false\<newline>replicas: 3'') =
       [''template'', ''paused'', ''replicas'']
   \<and> wf_heap []
   \<and> render_new (DeploymentSpec [] [] [(''template'', PStr ''tpl''),
        (''min_ready_seconds'', PNone), (''paused'', PBool False),
        (''progress_deadline_seconds'', PNone), (''replicas'', PInt 3),
        (''revision_history_limit'', PNone), (''selector'', PNone), (''strategy'', PNone)]) =
       Inr ''template: tpl\<newline>paused: false\<newline>replicas: 3''"
proof -
  let ?h = "[\<lparr>obj_class = ''DeploymentSpec'',
       obj_dict = [(''template'', PStr ''tpl''), (''minReadySeconds'', PNone),
         (''paused'', PBool False), (''progressDeadlineSeconds'', PNone),
         (''replicas'', PInt 3), (''revisionHistoryLimit'', PNone), (''selector'', PNone),
         (''strategy'', PNone)]\<rparr>]"
  let ?t = "''template: tpl\<newline>paused: false\<newline>replicas: 3''"
  have wf: "wf_heap ?h"
    by (simp add: wf_heap_def wf_obj_def py_identifier_def ident_char_def)
  have wf0: "wf_heap []"
    by (simp add: wf_heap_def)
  have rv: "render_value ?h [] 0 (PRef 0) =
      Inr (Block [''template: tpl'', ''paused: false'', ''replicas: 3''])"
    by (simp add: yaml_string_def plain_safe_def plain_char_def looks_numeric_def
        reserved_word_def indent_def show_int_def show_nat_3)
  have r: "render ?h (PRef 0) = Inr ?t"
    by (simp add: render_def yaml_string_def plain_safe_def plain_char_def looks_numeric_def
        reserved_word_def indent_def show_int_def show_nat_3)
  have rn: "render_new (DeploymentSpec [] [] [(''template'', PStr ''tpl''),
        (''min_ready_seconds'', PNone), (''paused'', PBool False),
        (''progress_deadline_seconds'', PNone), (''replicas'', PInt 3),
        (''revision_history_limit'', PNone), (''selector'', PNone), (''strategy'', PNone)]) =
       Inr ?t"
    by (simp add: DeploymentSpec_kw render_new_def render_def yaml_string_def plain_safe_def
        plain_char_def looks_numeric_def reserved_word_def indent_def show_int_def show_nat_3)
  have pr: "map fst (present (obj_dict (?h ! 0))) = [''template'', ''paused'', ''replicas'']"
    by (simp add: present_def)
  note T = rendered_keys_in_declaration_order [where h = ?h and a = 0 and path = "[]" and n = 0
        and f = "Block [''template: tpl'', ''paused: false'', ''replicas: 3'']" and t = ?t]
  from T wf rv
  have "keys_at 0 (form_lines (Block [''template: tpl'', ''paused: false'', ''replicas: 3''])) =
      map fst (present (obj_dict (?h ! 0)))"
    by blast
  then have k1: "keys_at 0 [''template: tpl'', ''paused: false'', ''replicas: 3''] =
       [''template'', ''paused'', ''replicas'']"
    unfolding form_lines.simps pr .
  from T wf r
  have "keys_at 0 (text_lines ?t) = map fst (present (obj_dict (?h ! 0)))"
    by blast
  then have k2: "keys_at 0 (text_lines ?t) = [''template'', ''paused'', ''replicas'']"
    unfolding pr .
  from wf rv k1 r k2 wf0 rn show ?thesis
    by blast
qed

end
